theory Spec2Isabelle
  imports Complex_Main "HOL-Library.Word" "HOL-Library.AList"
begin

unbundle bit_operations_syntax

section \<open>JavaScript numbers and references\<close>

text \<open>
  The bitwise operators of JavaScript convert their operands to 32-bit integers, work on
  the bits and give a signed 32-bit result. Numbers are modelled as \<open>int\<close>; every
  bitwise operator goes through \<open>32 word\<close> and reads the result back with \<open>sint\<close>.
\<close>

definition shl32 :: "int \<Rightarrow> nat \<Rightarrow> int" where
  "shl32 x n = sint (push_bit n (word_of_int x :: 32 word))"

definition or32 :: "int \<Rightarrow> int \<Rightarrow> int" where
  "or32 a b = sint ((word_of_int a :: 32 word) OR word_of_int b)"

definition and32 :: "int \<Rightarrow> int \<Rightarrow> int" where
  "and32 a b = sint ((word_of_int a :: 32 word) AND word_of_int b)"

text \<open>A number that fits 32 bits survives the conversion.\<close>

lemma sint_in_range:
  "- 2147483648 \<le> x \<Longrightarrow> x < 2147483648 \<Longrightarrow> sint (word_of_int x :: 32 word) = x"
  by (simp add: sint_sbintrunc' signed_take_bit_int_eq_self)

text \<open>A field that was never assigned is \<open>undefined\<close>; a bitwise operator reads it as 0.\<close>

fun num :: "int option \<Rightarrow> int" where
  "num None = 0"
| "num (Some x) = x"

text \<open>
  A reference held in a table: a slot never written is \<open>undefined\<close>, a cleared slot is
  \<open>null\<close>, and \<open>===\<close> tells the two apart.
\<close>

datatype 'a jsref = Undefined | Null | Ref 'a

text \<open>The exceptions the modelled code can throw.\<close>

datatype error = RangeError | TypeError

section \<open>PipelineSystem: the pipeline cache\<close>

subsection \<open>Packed keys\<close>

datatype topology = PointList | LineList | LineStrip | TriangleList | TriangleStrip

fun topologyStringToId :: "topology \<Rightarrow> int" where
  "topologyStringToId PointList = 0"
| "topologyStringToId LineList = 1"
| "topologyStringToId LineStrip = 2"
| "topologyStringToId TriangleList = 3"
| "topologyStringToId TriangleStrip = 4"

definition getProgKey :: "int \<Rightarrow> int \<Rightarrow> int \<Rightarrow> int" where
  "getProgKey geometryLayout shaderKey topo =
     or32 (or32 (shl32 geometryLayout 13) (shl32 shaderKey 3)) topo"

definition getGraphicsStateKey :: "int \<Rightarrow> int \<Rightarrow> int \<Rightarrow> int \<Rightarrow> int" where
  "getGraphicsStateKey customId depthCompareKey state blendMode =
     or32 (or32 (or32 (shl32 customId 15) (shl32 depthCompareKey 12)) (shl32 state 5)) blendMode"

definition getGlobalStateKey :: "int \<Rightarrow> int \<Rightarrow> int \<Rightarrow> int \<Rightarrow> int \<Rightarrow> int" where
  "getGlobalStateKey stencilStateId multiSampleCount colorMask renderTarget hdr =
     (let stencilStateId' = (if and32 renderTarget 1 = 0 then 0 else stencilStateId)
      in or32 (or32 (or32 (or32 (shl32 colorMask 8) (shl32 stencilStateId' 5))
                 (shl32 renderTarget 3)) (shl32 hdr 1)) multiSampleCount)"

subsection \<open>The system's state\<close>

text \<open>
  What \<open>getPipeline\<close> reads of its arguments: the geometry's memoized layout key (the
  value of \<open>geometry._layoutKey\<close> once \<open>ensureGeometryLayoutKey\<close> has run) and its
  topology, the program's layout key, and the three packed fields of the render state.
  The records also hold what the command encoder and the bind groups read: the
  geometry's buffers (objects, told apart by \<open>b_uid\<close>), index buffer, instance count and
  draw size (\<open>getDrawSize()\<close>), and the program's bind-group layouts.
\<close>

record gpu_buffer =
  b_uid :: nat
  bytesPerElement :: nat

record geometry =
  g_layoutKey :: int
  g_topology :: topology
  buffers :: "gpu_buffer list"
  indexBuffer :: "gpu_buffer option"
  instanceCount :: int
  drawSize :: int

text \<open>
  An entry of a program's bind-group layout: its binding number, whether it is a storage
  texture, and its buffer, if it has one: a uniform buffer, or a buffer of another type.
\<close>

datatype buffer_layout = NoBuffer | UniformBuffer | OtherBuffer

record layout_entry =
  binding :: nat
  storageTexture :: bool
  buffer :: buffer_layout

record gpu_program =
  p_layoutKey :: int
  gpuLayout :: "layout_entry list list"

record render_state =
  customId :: int
  data :: int
  blendModeId :: int

text \<open>
  \<open>setRenderTarget\<close> reads the sample count, whether the descriptor has a depth/stencil
  attachment (and, when it has, whether its \<open>stencilLoadOp\<close> is set) and the HDR tier.
\<close>

record render_target =
  msaaSamples :: int
  rt_depthStencilAttachment :: "bool option"
  rt_hdr :: int

text \<open>
  One call of \<open>device.createRenderPipeline\<close>: the arguments of \<open>_createPipeline\<close> and
  the configuration fields of the system at that moment. The pipeline object the
  \<open>n\<close>-th call returns is identified by \<open>n\<close>.
\<close>

record creation =
  c_geometry :: geometry
  c_program :: gpu_program
  c_state :: render_state
  c_topology :: topology
  c_stencilMode :: "int option"
  c_multisampleCount :: int
  c_colorMask :: int
  c_depthStencilAttachment :: int
  c_hdr :: "int option"
  c_depthCompareKey :: int

text \<open>
  The caches are objects shared by reference: \<open>_pipeCache\<close> and \<open>_pipeRT\<close> point at
  tables that also hang in \<open>_pipeRT\<close> and \<open>_pipeStateCaches\<close>. They live in two
  stores, addressed by allocation number: \<open>pipeHashes\<close> holds every \<open>PipeHash\<close>
  (draw key to pipeline), \<open>pipeTables\<close> every \<open>Record<number, PipeHash>\<close> (program
  key to the address of a \<open>PipeHash\<close>).
\<close>

record pipeline_system =
  pipeCache :: nat
  prevProgKey :: int
  prevPipeKey :: int
  pipeRT :: nat
  pipeStateCaches :: "int \<rightharpoonup> nat"
  depthCompareKey :: int
  stencilMode :: "int option"
  colorMask :: int
  multisampleCount :: int
  depthStencilAttachment :: int
  hdr :: "int option"
  pipeHashes :: "nat \<Rightarrow> (int \<rightharpoonup> nat)"
  nextPipeHash :: nat
  pipeTables :: "nat \<Rightarrow> (int \<rightharpoonup> nat)"
  nextPipeTable :: nat
  created :: "creation list"

text \<open>The field initialisers: two fresh empty tables, both previous keys \<open>-1\<close>.\<close>

definition PipelineSystem_new :: pipeline_system where
  "PipelineSystem_new =
     \<lparr> pipeCache = 0, prevProgKey = - 1, prevPipeKey = - 1, pipeRT = 0,
       pipeStateCaches = Map.empty, depthCompareKey = 0, stencilMode = None,
       colorMask = 15, multisampleCount = 1, depthStencilAttachment = 0, hdr = None,
       pipeHashes = (\<lambda>_. Map.empty), nextPipeHash = 1,
       pipeTables = (\<lambda>_. Map.empty), nextPipeTable = 1,
       created = [] \<rparr>"

subsection \<open>Global state and partitions\<close>

definition globalKey :: "pipeline_system \<Rightarrow> int" where
  "globalKey s =
     getGlobalStateKey (num (stencilMode s)) (multisampleCount s) (colorMask s)
       (depthStencilAttachment s) (num (hdr s))"

definition updatePipeHash :: "pipeline_system \<Rightarrow> pipeline_system" where
  "updatePipeHash s =
     (let key = globalKey s in
      if prevPipeKey s = key then s
      else (case pipeStateCaches s key of
              Some t \<Rightarrow> s\<lparr> prevPipeKey := key, prevProgKey := - 1, pipeRT := t \<rparr>
            | None \<Rightarrow>
                (let t = nextPipeTable s in
                 s\<lparr> prevPipeKey := key, prevProgKey := - 1,
                    pipeTables := (pipeTables s)(t := Map.empty),
                    nextPipeTable := Suc t,
                    pipeStateCaches := (pipeStateCaches s)(key \<mapsto> t),
                    pipeRT := t \<rparr>)))"

definition setMultisampleCount :: "int \<Rightarrow> pipeline_system \<Rightarrow> pipeline_system" where
  "setMultisampleCount n s =
     (if multisampleCount s = n then s
      else updatePipeHash (s\<lparr> multisampleCount := n \<rparr>))"

definition setRenderTarget :: "render_target \<Rightarrow> pipeline_system \<Rightarrow> pipeline_system" where
  "setRenderTarget renderTarget s =
     updatePipeHash
       (s\<lparr> multisampleCount := msaaSamples renderTarget,
           depthStencilAttachment :=
             (case rt_depthStencilAttachment renderTarget of
                None \<Rightarrow> 0
              | Some stencilLoadOp \<Rightarrow> or32 1 (if stencilLoadOp then 2 else 0)),
           hdr := Some (rt_hdr renderTarget) \<rparr>)"

definition setColorMask :: "int \<Rightarrow> pipeline_system \<Rightarrow> pipeline_system" where
  "setColorMask m s =
     (if colorMask s = m then s else updatePipeHash (s\<lparr> colorMask := m \<rparr>))"

definition setDepthCompareKey :: "int \<Rightarrow> pipeline_system \<Rightarrow> pipeline_system" where
  "setDepthCompareKey k s = s\<lparr> depthCompareKey := k \<rparr>"

definition setStencilMode :: "int \<Rightarrow> pipeline_system \<Rightarrow> pipeline_system" where
  "setStencilMode m s =
     (if stencilMode s = Some m then s
      else updatePipeHash (s\<lparr> stencilMode := Some m \<rparr>))"

text \<open>
  \<open>contextChange\<close> sets the stencil mode to \<open>STENCIL_MODES.DISABLED\<close>; the enum is
  declared elsewhere, so its value is the parameter \<open>disabled\<close>.
\<close>

definition contextChange :: "int \<Rightarrow> pipeline_system \<Rightarrow> pipeline_system" where
  "contextChange disabled s = updatePipeHash (setStencilMode disabled s)"

subsection \<open>getPipeline\<close>

definition selectPipeCache :: "int \<Rightarrow> pipeline_system \<Rightarrow> pipeline_system" where
  "selectPipeCache progKey s =
     (if prevProgKey s \<noteq> progKey then
        (case pipeTables s (pipeRT s) progKey of
           Some h \<Rightarrow> s\<lparr> prevProgKey := progKey, pipeCache := h \<rparr>
         | None \<Rightarrow>
             (let h = nextPipeHash s in
              s\<lparr> prevProgKey := progKey, pipeCache := h,
                 pipeHashes := (pipeHashes s)(h := Map.empty),
                 nextPipeHash := Suc h,
                 pipeTables := (pipeTables s)(pipeRT s := (pipeTables s (pipeRT s))(progKey \<mapsto> h)) \<rparr>))
      else s)"

definition createPipeline ::
  "geometry \<Rightarrow> gpu_program \<Rightarrow> render_state \<Rightarrow> topology \<Rightarrow> pipeline_system \<Rightarrow> creation" where
  "createPipeline geom program state topo s =
     \<lparr> c_geometry = geom, c_program = program, c_state = state, c_topology = topo,
       c_stencilMode = stencilMode s, c_multisampleCount = multisampleCount s,
       c_colorMask = colorMask s, c_depthStencilAttachment = depthStencilAttachment s,
       c_hdr = hdr s, c_depthCompareKey = depthCompareKey s \<rparr>"

definition drawKey :: "render_state \<Rightarrow> pipeline_system \<Rightarrow> int" where
  "drawKey state s =
     getGraphicsStateKey (customId state)
       (if and32 (depthStencilAttachment s) 1 \<noteq> 0 then depthCompareKey s else 0)
       (data state) (blendModeId state)"

definition getPipeline ::
  "geometry \<Rightarrow> gpu_program \<Rightarrow> render_state \<Rightarrow> topology option \<Rightarrow> pipeline_system
     \<Rightarrow> nat \<times> pipeline_system" where
  "getPipeline geom program state topology_opt s =
     (let topo = (case topology_opt of Some t \<Rightarrow> t | None \<Rightarrow> g_topology geom);
          progKey = getProgKey (g_layoutKey geom) (p_layoutKey program) (topologyStringToId topo);
          s1 = selectPipeCache progKey s;
          key = drawKey state s1
      in case pipeHashes s1 (pipeCache s1) key of
           Some pipeline \<Rightarrow> (pipeline, s1)
         | None \<Rightarrow>
             (let pipeline = length (created s1) in
              (pipeline,
               s1\<lparr> created := created s1 @ [createPipeline geom program state topo s1],
                   pipeHashes := (pipeHashes s1)
                     (pipeCache s1 := (pipeHashes s1 (pipeCache s1))(key \<mapsto> pipeline)) \<rparr>)))"

subsection \<open>Histories of calls\<close>

datatype pipeline_op =
    ContextChange int
  | SetMultisampleCount int
  | SetRenderTarget render_target
  | SetColorMask int
  | SetDepthCompareKey int
  | SetStencilMode int
  | GetPipeline geometry gpu_program render_state "topology option"

fun applyOp :: "pipeline_op \<Rightarrow> pipeline_system \<Rightarrow> pipeline_system" where
  "applyOp (ContextChange d) s = contextChange d s"
| "applyOp (SetMultisampleCount n) s = setMultisampleCount n s"
| "applyOp (SetRenderTarget rt) s = setRenderTarget rt s"
| "applyOp (SetColorMask m) s = setColorMask m s"
| "applyOp (SetDepthCompareKey k) s = setDepthCompareKey k s"
| "applyOp (SetStencilMode m) s = setStencilMode m s"
| "applyOp (GetPipeline g p st t) s = snd (getPipeline g p st t s)"

fun run :: "pipeline_op list \<Rightarrow> pipeline_system \<Rightarrow> pipeline_system" where
  "run [] s = s"
| "run (x # xs) s = run xs (applyOp x s)"

text \<open>A system as the renderer hands it out: constructed, then given its GPU context.\<close>

definition boot :: "int \<Rightarrow> pipeline_system" where
  "boot disabled = contextChange disabled PipelineSystem_new"

subsection \<open>What a history of calls preserves\<close>

text \<open>
  \<open>cached s gk pk k\<close> follows the three tables from the partition of global key \<open>gk\<close>
  through the sub-cache of program key \<open>pk\<close> to the pipeline stored under draw key \<open>k\<close>.
\<close>

definition cached :: "pipeline_system \<Rightarrow> int \<Rightarrow> int \<Rightarrow> int \<Rightarrow> nat option" where
  "cached s gk pk k =
     (case pipeStateCaches s gk of
        None \<Rightarrow> None
      | Some t \<Rightarrow> (case pipeTables s t pk of None \<Rightarrow> None | Some h \<Rightarrow> pipeHashes s h k))"

text \<open>
  The two shortcuts agree with the tables: \<open>_pipeRT\<close> is the partition registered
  under \<open>_prevPipeKey\<close>, \<open>_pipeCache\<close> is the sub-cache of \<open>_prevProgKey\<close> in it
  unless that key is the reset value \<open>-1\<close>, and every address in use was allocated.
\<close>

definition linked :: "pipeline_system \<Rightarrow> bool" where
  "linked s \<longleftrightarrow>
     pipeStateCaches s (prevPipeKey s) = Some (pipeRT s) \<and>
     (prevProgKey s \<noteq> - 1 \<longrightarrow> pipeTables s (pipeRT s) (prevProgKey s) = Some (pipeCache s)) \<and>
     (\<forall>k t. pipeStateCaches s k = Some t \<longrightarrow> t < nextPipeTable s) \<and>
     (\<forall>k t pk h. pipeStateCaches s k = Some t \<longrightarrow> pipeTables s t pk = Some h \<longrightarrow> h < nextPipeHash s)"

definition consistent :: "pipeline_system \<Rightarrow> bool" where
  "consistent s \<longleftrightarrow> prevPipeKey s = globalKey s \<and> linked s"

lemma getGlobalStateKey_boot: "getGlobalStateKey d 1 15 0 0 = 3841"
  by (simp add: getGlobalStateKey_def and32_def or32_def shl32_def)

lemma consistent_boot: "consistent (boot d)"
  by (simp add: boot_def contextChange_def setStencilMode_def updatePipeHash_def
      PipelineSystem_new_def globalKey_def getGlobalStateKey_boot consistent_def linked_def Let_def)

lemma linked_config [simp]:
  "linked (s\<lparr> multisampleCount := n \<rparr>) = linked s"
  "linked (s\<lparr> colorMask := m \<rparr>) = linked s"
  "linked (s\<lparr> stencilMode := sm \<rparr>) = linked s"
  "linked (s\<lparr> depthStencilAttachment := a \<rparr>) = linked s"
  "linked (s\<lparr> hdr := h \<rparr>) = linked s"
  "linked (s\<lparr> depthCompareKey := k \<rparr>) = linked s"
  by (simp_all add: linked_def)

lemma consistent_updatePipeHash:
  assumes "linked s"
  shows "consistent (updatePipeHash s)"
proof (cases "prevPipeKey s = globalKey s")
  case True
  with assms show ?thesis by (simp add: updatePipeHash_def consistent_def)
next
  case False
  show ?thesis
  proof (cases "pipeStateCaches s (globalKey s)")
    case None
    with False assms show ?thesis
      by (auto simp: updatePipeHash_def consistent_def linked_def Let_def globalKey_def less_Suc_eq)
  next
    case (Some t)
    with False assms show ?thesis
      by (auto simp: updatePipeHash_def consistent_def linked_def Let_def globalKey_def)
  qed
qed

lemma consistent_setters:
  assumes "consistent s"
  shows "consistent (setMultisampleCount n s)" "consistent (setColorMask m s)" "consistent (setStencilMode sm s)"
    "consistent (setRenderTarget rt s)" "consistent (setDepthCompareKey k s)" "consistent (contextChange d s)"
proof -
  from assms have l: "linked s" by (simp add: consistent_def)
  show "consistent (setMultisampleCount n s)"
    using assms l by (simp add: setMultisampleCount_def consistent_updatePipeHash)
  show "consistent (setColorMask m s)"
    using assms l by (simp add: setColorMask_def consistent_updatePipeHash)
  show sm: "consistent (setStencilMode sm s)" for sm
    using assms l by (simp add: setStencilMode_def consistent_updatePipeHash)
  show "consistent (setRenderTarget rt s)"
    using l by (simp add: setRenderTarget_def consistent_updatePipeHash)
  show "consistent (setDepthCompareKey k s)"
    using assms by (simp add: setDepthCompareKey_def consistent_def globalKey_def)
  show "consistent (contextChange d s)"
  proof -
    from sm[of d] have "linked (setStencilMode d s)" by (simp add: consistent_def)
    then show ?thesis by (simp add: contextChange_def consistent_updatePipeHash)
  qed
qed

lemma getProgKey_not_minus_one: "getProgKey g p (topologyStringToId t) \<noteq> - 1"
proof
  assume a: "getProgKey g p (topologyStringToId t) = - 1"
  let ?t = "word_of_int (topologyStringToId t) :: 32 word"
  let ?w = "(push_bit 13 (word_of_int g :: 32 word) OR push_bit 3 (word_of_int p)) OR ?t"
  from a have "sint ?w = - 1" by (simp add: getProgKey_def or32_def shl32_def)
  then have "word_of_int (sint ?w) = (word_of_int (- 1) :: 32 word)" by simp
  then have w: "?w = - 1" by simp
  have "bit ?w 0" "bit ?w 1" "bit ?w 2" unfolding w by simp_all
  then have "bit ?t 0 \<and> bit ?t 1 \<and> bit ?t 2" by (simp_all add: bit_or_iff bit_push_bit_iff)
  then show False by (cases t) simp_all
qed

definition progKeyOf :: "geometry \<Rightarrow> gpu_program \<Rightarrow> topology option \<Rightarrow> int" where
  "progKeyOf g p t = getProgKey (g_layoutKey g) (p_layoutKey p)
     (topologyStringToId (case t of Some x \<Rightarrow> x | None \<Rightarrow> g_topology g))"

lemma progKeyOf_not_minus_one: "progKeyOf g p t \<noteq> - 1"
  by (simp add: progKeyOf_def getProgKey_not_minus_one)

lemma selectPipeCache_fields [simp]:
  "prevPipeKey (selectPipeCache pk s) = prevPipeKey s"
  "pipeRT (selectPipeCache pk s) = pipeRT s"
  "pipeStateCaches (selectPipeCache pk s) = pipeStateCaches s"
  "depthCompareKey (selectPipeCache pk s) = depthCompareKey s"
  "stencilMode (selectPipeCache pk s) = stencilMode s"
  "colorMask (selectPipeCache pk s) = colorMask s"
  "multisampleCount (selectPipeCache pk s) = multisampleCount s"
  "depthStencilAttachment (selectPipeCache pk s) = depthStencilAttachment s"
  "hdr (selectPipeCache pk s) = hdr s"
  "created (selectPipeCache pk s) = created s"
  "nextPipeTable (selectPipeCache pk s) = nextPipeTable s"
  by (simp_all add: selectPipeCache_def Let_def split: option.splits)

lemma selectPipeCache_keys [simp]:
  "globalKey (selectPipeCache pk s) = globalKey s"
  "drawKey st (selectPipeCache pk s) = drawKey st s"
  by (simp_all add: globalKey_def drawKey_def)

lemma selectPipeCache_linked:
  assumes "linked s" and "pk \<noteq> - 1"
  shows "linked (selectPipeCache pk s)"
    and "pipeTables (selectPipeCache pk s) (pipeRT s) pk = Some (pipeCache (selectPipeCache pk s))"
    and "cached (selectPipeCache pk s) a b c = cached s a b c"
proof -
  show "linked (selectPipeCache pk s)"
    using assms
    by (auto simp: selectPipeCache_def linked_def Let_def less_Suc_eq split: option.splits)
  show "pipeTables (selectPipeCache pk s) (pipeRT s) pk = Some (pipeCache (selectPipeCache pk s))"
    using assms
    by (auto simp: selectPipeCache_def linked_def Let_def split: option.splits)
  show "cached (selectPipeCache pk s) a b c = cached s a b c"
  proof (cases "prevProgKey s \<noteq> pk \<and> pipeTables s (pipeRT s) pk = None")
    case False
    then show ?thesis
      by (auto simp: selectPipeCache_def cached_def split: option.splits)
  next
    case True
    have fresh: "h \<noteq> nextPipeHash s" if "pipeStateCaches s a = Some t" "pipeTables s t b = Some h" for t h
      using assms(1) that unfolding linked_def by fastforce
    from True show ?thesis
      by (auto simp: selectPipeCache_def cached_def Let_def fresh split: option.splits)
  qed
qed


lemma getPipeline_unfold:
  "getPipeline g p st t s =
     (let s1 = selectPipeCache (progKeyOf g p t) s in
      case pipeHashes s1 (pipeCache s1) (drawKey st s) of
        Some pipeline \<Rightarrow> (pipeline, s1)
      | None \<Rightarrow>
          (length (created s),
           s1\<lparr> created := created s @
                 [createPipeline g p st (case t of Some x \<Rightarrow> x | None \<Rightarrow> g_topology g) s1],
               pipeHashes := (pipeHashes s1)
                 (pipeCache s1 := (pipeHashes s1 (pipeCache s1))(drawKey st s \<mapsto> length (created s))) \<rparr>))"
  by (simp add: getPipeline_def progKeyOf_def Let_def split: option.splits)

lemma cached_current:
  assumes "consistent s"
  shows "pipeHashes (selectPipeCache (progKeyOf g p t) s)
           (pipeCache (selectPipeCache (progKeyOf g p t) s)) k
         = cached s (globalKey s) (progKeyOf g p t) k"
proof -
  let ?pk = "progKeyOf g p t"
  let ?s1 = "selectPipeCache ?pk s"
  from assms have l: "linked s" and gk: "pipeStateCaches s (globalKey s) = Some (pipeRT s)"
    by (auto simp: consistent_def linked_def)
  have "cached ?s1 (globalKey s) ?pk k = pipeHashes ?s1 (pipeCache ?s1) k"
    using gk selectPipeCache_linked(2)[OF l progKeyOf_not_minus_one, of g p t]
    by (simp add: cached_def)
  then show ?thesis
    using selectPipeCache_linked(3)[OF l progKeyOf_not_minus_one, of g p t] by simp
qed

lemma getPipeline_hit:
  assumes "consistent s" and "cached s (globalKey s) (progKeyOf g p t) (drawKey st s) = Some pl"
  shows "getPipeline g p st t s = (pl, selectPipeCache (progKeyOf g p t) s)"
  using cached_current[OF assms(1), of g p t "drawKey st s"] assms(2)
  by (simp add: getPipeline_unfold Let_def)

lemma getPipeline_miss:
  assumes "consistent s" and "cached s (globalKey s) (progKeyOf g p t) (drawKey st s) = None"
  shows "fst (getPipeline g p st t s) = length (created s)"
    and "created (snd (getPipeline g p st t s)) =
           created s @ [createPipeline g p st (case t of Some x \<Rightarrow> x | None \<Rightarrow> g_topology g) s]"
  using cached_current[OF assms(1), of g p t "drawKey st s"] assms(2)
  by (simp_all add: getPipeline_unfold Let_def createPipeline_def)

lemma getPipeline_fields [simp]:
  "prevPipeKey (snd (getPipeline g p st t s)) = prevPipeKey s"
  "pipeRT (snd (getPipeline g p st t s)) = pipeRT s"
  "pipeStateCaches (snd (getPipeline g p st t s)) = pipeStateCaches s"
  "depthCompareKey (snd (getPipeline g p st t s)) = depthCompareKey s"
  "stencilMode (snd (getPipeline g p st t s)) = stencilMode s"
  "colorMask (snd (getPipeline g p st t s)) = colorMask s"
  "multisampleCount (snd (getPipeline g p st t s)) = multisampleCount s"
  "depthStencilAttachment (snd (getPipeline g p st t s)) = depthStencilAttachment s"
  "hdr (snd (getPipeline g p st t s)) = hdr s"
  by (simp_all add: getPipeline_unfold Let_def split: option.splits)

lemma getPipeline_keys [simp]:
  "globalKey (snd (getPipeline g p st t s)) = globalKey s"
  "drawKey st' (snd (getPipeline g p st t s)) = drawKey st' s"
  by (simp_all add: globalKey_def drawKey_def)

lemma linked_log [simp]:
  "linked (s\<lparr> created := c, pipeHashes := h \<rparr>) = linked s"
  by (simp add: linked_def)

lemma getPipeline_consistent:
  assumes "consistent s"
  shows "consistent (snd (getPipeline g p st t s))"
proof -
  from assms have l: "linked s" by (simp add: consistent_def)
  have "linked (snd (getPipeline g p st t s))"
    using selectPipeCache_linked(1)[OF l progKeyOf_not_minus_one, of g p t]
    by (simp add: getPipeline_unfold Let_def split: option.splits)
  with assms show ?thesis by (simp add: consistent_def)
qed

lemma getPipeline_cached_after:
  assumes "consistent s"
  shows "cached (snd (getPipeline g p st t s)) (globalKey s) (progKeyOf g p t) (drawKey st s)
           = Some (fst (getPipeline g p st t s))"
proof -
  let ?pk = "progKeyOf g p t"
  let ?s1 = "selectPipeCache ?pk s"
  from assms have l: "linked s" and gk: "pipeStateCaches s (globalKey s) = Some (pipeRT s)"
    by (auto simp: consistent_def linked_def)
  note tab = selectPipeCache_linked(2)[OF l progKeyOf_not_minus_one, of g p t]
  show ?thesis
    using gk tab
    by (auto simp: getPipeline_unfold Let_def cached_def split: option.splits)
qed

lemma getPipeline_mono:
  assumes "consistent s" and "cached s a b c = Some pl"
  shows "cached (snd (getPipeline g p st t s)) a b c = Some pl"
proof -
  let ?pk = "progKeyOf g p t"
  let ?s1 = "selectPipeCache ?pk s"
  from assms have l: "linked s" by (simp add: consistent_def)
  have c1: "cached ?s1 a b c = Some pl"
    using selectPipeCache_linked(3)[OF l progKeyOf_not_minus_one, of g p t] assms(2) by simp
  show ?thesis
  proof (cases "pipeHashes ?s1 (pipeCache ?s1) (drawKey st s)")
    case (Some x)
    with c1 show ?thesis by (simp add: getPipeline_unfold Let_def)
  next
    case None
    with c1 show ?thesis
      by (auto simp: getPipeline_unfold Let_def cached_def split: option.splits)
  qed
qed


lemma updatePipeHash_mono:
  assumes "linked s" and "cached s a b c = Some pl"
  shows "cached (updatePipeHash s) a b c = Some pl"
proof -
  have fresh: "t \<noteq> nextPipeTable s" if "pipeStateCaches s a = Some t" for t
    using assms(1) that unfolding linked_def by fastforce
  from assms(2) show ?thesis
    by (auto simp: updatePipeHash_def cached_def Let_def fresh split: option.splits)
qed

lemma cached_config [simp]:
  "cached (s\<lparr> multisampleCount := n \<rparr>) = cached s"
  "cached (s\<lparr> colorMask := m \<rparr>) = cached s"
  "cached (s\<lparr> stencilMode := sm \<rparr>) = cached s"
  "cached (s\<lparr> depthStencilAttachment := d \<rparr>) = cached s"
  "cached (s\<lparr> hdr := h \<rparr>) = cached s"
  "cached (s\<lparr> depthCompareKey := k \<rparr>) = cached s"
  by (simp_all add: cached_def fun_eq_iff split: option.splits)

lemma updatePipeHash_created [simp]: "created (updatePipeHash s) = created s"
  by (simp add: updatePipeHash_def Let_def split: option.splits)

lemma applyOp_consistent: "consistent s \<Longrightarrow> consistent (applyOp x s)"
  by (cases x) (simp_all add: consistent_setters getPipeline_consistent)

lemma applyOp_mono:
  assumes "consistent s" and "cached s a b c = Some pl"
  shows "cached (applyOp x s) a b c = Some pl"
proof -
  from assms have l: "linked s" by (simp add: consistent_def)
  show ?thesis
  proof (cases x)
    case (ContextChange d)
    have "linked (setStencilMode d s)"
      using consistent_setters(3)[OF assms(1), of d] by (simp add: consistent_def)
    moreover have "cached (setStencilMode d s) a b c = Some pl"
      using l assms(2) by (simp add: setStencilMode_def updatePipeHash_mono)
    ultimately show ?thesis
      using ContextChange by (simp add: contextChange_def updatePipeHash_mono)
  next
    case (GetPipeline g p st t)
    with assms show ?thesis by (simp add: getPipeline_mono)
  qed (use l assms(2) in \<open>simp_all add: setMultisampleCount_def setRenderTarget_def setColorMask_def
        setDepthCompareKey_def setStencilMode_def updatePipeHash_mono\<close>)
qed

lemma run_consistent: "consistent s \<Longrightarrow> consistent (run xs s)"
  by (induction xs arbitrary: s) (simp_all add: applyOp_consistent)

lemma run_mono: "consistent s \<Longrightarrow> cached s a b c = Some pl \<Longrightarrow> cached (run xs s) a b c = Some pl"
  by (induction xs arbitrary: s) (simp_all add: applyOp_consistent applyOp_mono)


text \<open>The keys under which the pipeline of a recorded creation was stored.\<close>

definition creationKeys :: "creation \<Rightarrow> int \<times> int \<times> int" where
  "creationKeys c =
     (getGlobalStateKey (num (c_stencilMode c)) (c_multisampleCount c) (c_colorMask c)
        (c_depthStencilAttachment c) (num (c_hdr c)),
      getProgKey (g_layoutKey (c_geometry c)) (p_layoutKey (c_program c))
        (topologyStringToId (c_topology c)),
      getGraphicsStateKey (customId (c_state c))
        (if and32 (c_depthStencilAttachment c) 1 \<noteq> 0 then c_depthCompareKey c else 0)
        (data (c_state c)) (blendModeId (c_state c)))"

definition logged :: "pipeline_system \<Rightarrow> bool" where
  "logged s \<longleftrightarrow>
     (\<forall>c \<in> set (created s). \<exists>pl. cached s (fst (creationKeys c)) (fst (snd (creationKeys c)))
        (snd (snd (creationKeys c))) = Some pl) \<and>
     distinct (map creationKeys (created s))"

lemma creationKeys_createPipeline:
  "creationKeys (createPipeline g p st (case t of Some x \<Rightarrow> x | None \<Rightarrow> g_topology g) s)
     = (globalKey s, progKeyOf g p t, drawKey st s)"
  by (simp add: creationKeys_def createPipeline_def globalKey_def progKeyOf_def drawKey_def)

lemma logged_boot: "logged (boot d)"
  by (simp add: logged_def boot_def contextChange_def setStencilMode_def PipelineSystem_new_def)

lemma applyOp_created:
  "(\<And>g p st t. x \<noteq> GetPipeline g p st t) \<Longrightarrow> created (applyOp x s) = created s"
  by (cases x) (auto simp: contextChange_def setStencilMode_def setMultisampleCount_def
      setRenderTarget_def setColorMask_def setDepthCompareKey_def)

lemma getPipeline_logged:
  assumes "consistent s" and "logged s"
  shows "logged (snd (getPipeline g p st t s))"
proof (cases "cached s (globalKey s) (progKeyOf g p t) (drawKey st s)")
  case (Some pl)
  have "created (snd (getPipeline g p st t s)) = created s"
    by (simp add: getPipeline_hit[OF assms(1) Some])
  with assms show ?thesis
    unfolding logged_def using getPipeline_mono[OF assms(1)] by auto
next
  case None
  let ?e = "createPipeline g p st (case t of Some x \<Rightarrow> x | None \<Rightarrow> g_topology g) s"
  let ?s' = "snd (getPipeline g p st t s)"
  have cr: "created ?s' = created s @ [?e]"
    by (rule getPipeline_miss(2)[OF assms(1) None])
  have new: "creationKeys ?e \<notin> creationKeys ` set (created s)"
  proof
    assume "creationKeys ?e \<in> creationKeys ` set (created s)"
    then obtain c where c: "c \<in> set (created s)" "creationKeys c = creationKeys ?e" by auto
    with assms(2) obtain pl where
      "cached s (fst (creationKeys c)) (fst (snd (creationKeys c))) (snd (snd (creationKeys c))) = Some pl"
      unfolding logged_def by blast
    with c(2) None show False by (simp add: creationKeys_createPipeline)
  qed
  have e: "cached ?s' (fst (creationKeys ?e)) (fst (snd (creationKeys ?e))) (snd (snd (creationKeys ?e)))
             = Some (fst (getPipeline g p st t s))"
    using getPipeline_cached_after[OF assms(1), of g p st t] by (simp add: creationKeys_createPipeline)
  show ?thesis
    unfolding logged_def cr using assms(2) new e getPipeline_mono[OF assms(1)]
    by (auto simp: logged_def)
qed

lemma applyOp_logged:
  assumes "consistent s" and "logged s"
  shows "logged (applyOp x s)"
proof (cases "\<exists>g p st t. x = GetPipeline g p st t")
  case True
  with assms show ?thesis by (auto simp: getPipeline_logged)
next
  case False
  then have "created (applyOp x s) = created s" by (intro applyOp_created) auto
  with assms(2) show ?thesis
    unfolding logged_def using applyOp_mono[OF assms(1)] by auto
qed

lemma run_logged: "consistent s \<Longrightarrow> logged s \<Longrightarrow> logged (run xs s)"
  by (induction xs arbitrary: s) (simp_all add: applyOp_consistent applyOp_logged)

definition globalState :: "pipeline_system \<Rightarrow> int option \<times> int \<times> int \<times> int \<times> int option" where
  "globalState s =
     (stencilMode s, multisampleCount s, colorMask s, depthStencilAttachment s, hdr s)"

lemma same_state_keys:
  assumes "globalState s2 = globalState s1" and "depthCompareKey s2 = depthCompareKey s1"
  shows "globalKey s2 = globalKey s1" and "drawKey st s2 = drawKey st s1"
  using assms by (simp_all add: globalState_def globalKey_def drawKey_def)

lemma getPipeline_again:
  assumes "consistent s1" and "consistent s2"
    and "cached s1 (globalKey s1) (progKeyOf g p t) (drawKey st s1) = Some pl"
    and "\<And>a b c x. cached s1 a b c = Some x \<Longrightarrow> cached s2 a b c = Some x"
    and "globalKey s2 = globalKey s1" and "drawKey st s2 = drawKey st s1"
  shows "fst (getPipeline g p st t s2) = pl"
    and "created (snd (getPipeline g p st t s2)) = created s2"
proof -
  have "cached s2 (globalKey s2) (progKeyOf g p t) (drawKey st s2) = Some pl"
    using assms(3-6) by simp
  then have "getPipeline g p st t s2 = (pl, selectPipeCache (progKeyOf g p t) s2)"
    by (rule getPipeline_hit[OF assms(2)])
  then show "fst (getPipeline g p st t s2) = pl"
    and "created (snd (getPipeline g p st t s2)) = created s2" by simp_all
qed

subsection \<open>Claims about the pipeline cache\<close>

text \<open>
  C2. Global-state partition isolation. A system that was booted and driven by any
  calls \<open>opsA\<close> resolves a tuple: the result \<open>r1\<close> is the pipeline and the state after
  it. Then any calls \<open>opsB\<close> follow (changes of multisample count, colour mask, stencil
  mode, render target and depth compare key, and lookups of other tuples, in any order).
  If they end in the global render-target state and depth compare key they started from,
  resolving the tuple again returns the same pipeline object and calls the backend
  constructor no further time. The last conjunct is the invalidation of the fast path:
  whenever \<open>_updatePipeHash\<close> moves to another partition key it resets the previous
  program key to \<open>-1\<close>.
\<close>

theorem partition_isolation:
  assumes "r1 = getPipeline g p st t (run opsA (boot d))"
    and "s2 = run opsB (snd r1)"
    and "globalState s2 = globalState (snd r1)"
    and "depthCompareKey s2 = depthCompareKey (snd r1)"
  shows "fst (getPipeline g p st t s2) = fst r1 \<and>
         created (snd (getPipeline g p st t s2)) = created s2 \<and>
         (prevPipeKey (updatePipeHash s) \<noteq> prevPipeKey s \<longrightarrow> prevProgKey (updatePipeHash s) = - 1)"
proof -
  let ?s0 = "run opsA (boot d)"
  have c0: "consistent ?s0" by (simp add: run_consistent consistent_boot)
  have c1: "consistent (snd r1)" unfolding assms(1) by (rule getPipeline_consistent[OF c0])
  have c2: "consistent s2" unfolding assms(2) by (rule run_consistent[OF c1])
  have hit: "cached (snd r1) (globalKey (snd r1)) (progKeyOf g p t) (drawKey st (snd r1)) = Some (fst r1)"
    unfolding assms(1) using getPipeline_cached_after[OF c0, of g p st t] by simp
  have mono: "cached s2 a b c = Some x" if "cached (snd r1) a b c = Some x" for a b c x
    unfolding assms(2) using c1 that by (rule run_mono)
  note keys = same_state_keys[OF assms(3,4)]
  have "fst (getPipeline g p st t s2) = fst r1"
    and "created (snd (getPipeline g p st t s2)) = created s2"
    using getPipeline_again[OF c1 c2 hit mono keys] by simp_all
  moreover have "prevPipeKey (updatePipeHash s) \<noteq> prevPipeKey s \<longrightarrow> prevProgKey (updatePipeHash s) = - 1"
    by (simp add: updatePipeHash_def Let_def split: option.splits)
  ultimately show ?thesis by simp
qed

text \<open>Concrete arguments for the instances below.\<close>

definition geometry0 :: geometry where
  "geometry0 = \<lparr> g_layoutKey = 1, g_topology = TriangleList, buffers = [], indexBuffer = None,
     instanceCount = 1, drawSize = 3 \<rparr>"

definition program0 :: gpu_program where
  "program0 = \<lparr> p_layoutKey = 1, gpuLayout = [] \<rparr>"

definition state0 :: render_state where
  "state0 = \<lparr> customId = 0, data = 0, blendModeId = 1 \<rparr>"

text \<open>
  The tuple a pipeline is built for, read off a recorded constructor call: the layout keys
  of the geometry and of the program, the topology, the render state, the global
  render-target state and the depth compare key.
\<close>

definition creationTuple ::
  "creation \<Rightarrow> int \<times> int \<times> topology \<times> render_state
     \<times> (int option \<times> int \<times> int \<times> int \<times> int option) \<times> int" where
  "creationTuple c =
     (g_layoutKey (c_geometry c), p_layoutKey (c_program c), c_topology c, c_state c,
      (c_stencilMode c, c_multisampleCount c, c_colorMask c, c_depthStencilAttachment c, c_hdr c),
      c_depthCompareKey c)"

lemma creationKeys_tuple:
  "creationKeys c =
     (case creationTuple c of (gl, pl, topo, st, (sm, ms, cm, da, h), dk) \<Rightarrow>
        (getGlobalStateKey (num sm) ms cm da (num h),
         getProgKey gl pl (topologyStringToId topo),
         getGraphicsStateKey (customId st) (if and32 da 1 \<noteq> 0 then dk else 0) (data st) (blendModeId st)))"
  by (simp add: creationKeys_def creationTuple_def)

lemma distinct_filter_one:
  "distinct (map f xs) \<Longrightarrow> length (filter (\<lambda>c. f c = T) xs) \<le> 1"
proof (induction xs)
  case Nil
  then show ?case by simp
next
  case (Cons x xs)
  then have ih: "length (filter (\<lambda>c. f c = T) xs) \<le> 1" and new: "f x \<notin> f ` set xs" by simp_all
  show ?case
  proof (cases "f x = T")
    case True
    with new have "filter (\<lambda>c. f c = T) xs = []" by (fastforce simp: filter_empty_conv image_iff)
    with True show ?thesis by simp
  next
    case False
    with ih show ?thesis by simp
  qed
qed

lemma logged_tuples:
  assumes "logged s"
  shows "length (filter (\<lambda>c. creationTuple c = T) (created s)) \<le> 1"
proof -
  from assms have d: "distinct (created s)" and i: "inj_on creationKeys (set (created s))"
    by (simp_all add: logged_def distinct_map)
  have "inj_on creationTuple (set (created s))"
  proof (rule inj_onI)
    fix x y assume xy: "x \<in> set (created s)" "y \<in> set (created s)" and "creationTuple x = creationTuple y"
    then have "creationKeys x = creationKeys y" by (simp only: creationKeys_tuple)
    with i show "x = y" using xy by (rule inj_onD)
  qed
  with d have "distinct (map creationTuple (created s))" by (simp add: distinct_map)
  then show ?thesis by (rule distinct_filter_one)
qed

text \<open>
  C3. Key stability. In any booted system, after any history \<open>ops\<close>, a tuple is resolved.
  After any further calls \<open>ops'\<close> that end in the same global render-target state and
  depth compare key, a call for the same tuple returns the same pipeline object and
  calls the backend constructor no further time. The tuple is what the arguments have in
  common: the second call may pass another geometry object of the same layout key,
  another program object of the same layout key, and the same topology through the
  argument or through the geometry. The log of backend constructor calls never holds
  two calls for one tuple.
\<close>

theorem key_stability:
  assumes "g_layoutKey g' = g_layoutKey g"
    and "p_layoutKey p' = p_layoutKey p"
    and "(case t' of Some x \<Rightarrow> x | None \<Rightarrow> g_topology g') = (case t of Some x \<Rightarrow> x | None \<Rightarrow> g_topology g)"
    and "r1 = getPipeline g p st t (run ops (boot d))"
    and "s2 = run ops' (snd r1)"
    and "globalState s2 = globalState (snd r1)"
    and "depthCompareKey s2 = depthCompareKey (snd r1)"
    and "r2 = getPipeline g' p' st t' s2"
  shows "fst r2 = fst r1 \<and> created (snd r2) = created s2 \<and>
         (\<forall>T. length (filter (\<lambda>c. creationTuple c = T) (created (snd r2))) \<le> 1)"
proof -
  let ?s0 = "run ops (boot d)"
  have c0: "consistent ?s0" by (simp add: run_consistent consistent_boot)
  have c1: "consistent (snd r1)" unfolding assms(4) by (rule getPipeline_consistent[OF c0])
  have c2: "consistent s2" unfolding assms(5) by (rule run_consistent[OF c1])
  have pk: "progKeyOf g' p' t' = progKeyOf g p t"
    using assms(1,2,3) by (simp add: progKeyOf_def)
  have hit: "cached (snd r1) (globalKey (snd r1)) (progKeyOf g' p' t') (drawKey st (snd r1)) = Some (fst r1)"
    unfolding assms(4) pk using getPipeline_cached_after[OF c0, of g p st t] by simp
  have mono: "cached s2 a b c = Some x" if "cached (snd r1) a b c = Some x" for a b c x
    unfolding assms(5) using c1 that by (rule run_mono)
  note keys = same_state_keys[OF assms(6,7)]
  have same: "fst r2 = fst r1" "created (snd r2) = created s2"
    unfolding assms(8) using getPipeline_again[OF c1 c2 hit mono keys] by simp_all
  have "logged ?s0" by (simp add: run_logged consistent_boot logged_boot)
  then have "logged (snd r1)" unfolding assms(4) by (rule getPipeline_logged[OF c0])
  then have "logged s2" unfolding assms(5) by (rule run_logged[OF c1])
  then have "logged (snd r2)" unfolding assms(8) by (rule getPipeline_logged[OF c2])
  then have "\<forall>T. length (filter (\<lambda>c. creationTuple c = T) (created (snd r2))) \<le> 1"
    using logged_tuples by blast
  with same show ?thesis by simp
qed

definition geometry1 :: geometry where
  "geometry1 = geometry0\<lparr> g_layoutKey := 2, g_topology := LineList \<rparr>"

text \<open>
  Another geometry object of the layout of \<open>geometry0\<close>, with a buffer, another draw size
  and another topology of its own, and another program object of the layout key of
  \<open>program0\<close>.
\<close>

definition geometry2 :: geometry where
  "geometry2 = geometry0\<lparr> g_topology := LineList, buffers := [\<lparr> b_uid = 9, bytesPerElement = 4 \<rparr>],
     drawSize := 6 \<rparr>"

definition program2 :: gpu_program where
  "program2 = \<lparr> p_layoutKey = 1,
     gpuLayout = [[\<lparr> binding = 0, storageTexture = False, buffer = UniformBuffer \<rparr>]] \<rparr>"

lemmas eval_defs = run.simps applyOp.simps boot_def contextChange_def setStencilMode_def updatePipeHash_def
      PipelineSystem_new_def globalKey_def getGlobalStateKey_def and32_def or32_def shl32_def Let_def
      getPipeline_def selectPipeCache_def drawKey_def getGraphicsStateKey_def getProgKey_def
      createPipeline_def setMultisampleCount_def

theorem key_stability_witness:
  "fst (getPipeline geometry0 program0 state0 None (boot 0)) = 0 \<and>
   fst (getPipeline geometry2 program2 state0 (Some TriangleList)
     (run [GetPipeline geometry1 program0 state0 None, GetPipeline geometry0 program0 state0 (Some LineStrip)]
        (snd (getPipeline geometry0 program0 state0 None (boot 0))))) = 0 \<and>
   length (created (snd (getPipeline geometry2 program2 state0 (Some TriangleList)
     (run [GetPipeline geometry1 program0 state0 None, GetPipeline geometry0 program0 state0 (Some LineStrip)]
        (snd (getPipeline geometry0 program0 state0 None (boot 0))))))) = 3 \<and>
   length (filter (\<lambda>c. g_layoutKey (c_geometry c) = 1 \<and> p_layoutKey (c_program c) = 1 \<and>
                       c_topology c = TriangleList)
     (created (snd (getPipeline geometry2 program2 state0 (Some TriangleList)
       (run [GetPipeline geometry1 program0 state0 None, GetPipeline geometry0 program0 state0 (Some LineStrip)]
          (snd (getPipeline geometry0 program0 state0 None (boot 0)))))))) = 1"
proof -
  let ?r1 = "getPipeline geometry0 program0 state0 None (run [] (boot 0))"
  let ?ops = "[GetPipeline geometry1 program0 state0 None, GetPipeline geometry0 program0 state0 (Some LineStrip)]"
  let ?s2 = "run ?ops (snd ?r1)"
  let ?r2 = "getPipeline geometry2 program2 state0 (Some TriangleList) ?s2"
  note ex = geometry0_def geometry1_def geometry2_def program0_def program2_def state0_def
  have h: "g_layoutKey geometry2 = g_layoutKey geometry0" "p_layoutKey program2 = p_layoutKey program0"
    "(case Some TriangleList of Some x \<Rightarrow> x | None \<Rightarrow> g_topology geometry2) =
       (case None of Some x \<Rightarrow> x | None \<Rightarrow> g_topology geometry0)"
    by (simp_all add: ex)
  have g: "globalState ?s2 = globalState (snd ?r1)" by (simp add: eval_defs ex globalState_def)
  have k: "depthCompareKey ?s2 = depthCompareKey (snd ?r1)" by (simp add: eval_defs ex)
  have r: "fst ?r1 = 0" by (simp add: eval_defs ex)
  have n: "created ?s2 =
     [createPipeline geometry0 program0 state0 TriangleList (boot 0),
      createPipeline geometry1 program0 state0 LineList (boot 0),
      createPipeline geometry0 program0 state0 LineStrip (boot 0)]"
    by (simp add: eval_defs ex)
  have f: "length (filter (\<lambda>c. g_layoutKey (c_geometry c) = 1 \<and> p_layoutKey (c_program c) = 1 \<and>
                       c_topology c = TriangleList) (created ?s2)) = 1"
    unfolding n by (simp add: createPipeline_def ex)
  from key_stability [OF h refl refl g k refl]
  have "fst ?r2 = fst ?r1" and "created (snd ?r2) = created ?s2" by blast+
  with r n f show ?thesis by simp
qed

theorem partition_isolation_witness:
  "fst (getPipeline geometry0 program0 state0 None (boot 0)) = 0 \<and>
   globalState (run [SetMultisampleCount 4, GetPipeline geometry0 program0 state0 None, SetMultisampleCount 1]
        (snd (getPipeline geometry0 program0 state0 None (boot 0))))
     = globalState (snd (getPipeline geometry0 program0 state0 None (boot 0))) \<and>
   fst (getPipeline geometry0 program0 state0 None
      (run [SetMultisampleCount 4, GetPipeline geometry0 program0 state0 None, SetMultisampleCount 1]
        (snd (getPipeline geometry0 program0 state0 None (boot 0))))) = 0 \<and>
   length (created (snd (getPipeline geometry0 program0 state0 None
      (run [SetMultisampleCount 4, GetPipeline geometry0 program0 state0 None, SetMultisampleCount 1]
        (snd (getPipeline geometry0 program0 state0 None (boot 0))))))) = 2"
proof -
  let ?r1 = "getPipeline geometry0 program0 state0 None (boot 0)"
  let ?s2 = "run [SetMultisampleCount 4, GetPipeline geometry0 program0 state0 None, SetMultisampleCount 1] (snd ?r1)"
  have a: "?r1 = getPipeline geometry0 program0 state0 None (run [] (boot 0))" by simp
  note ex = geometry0_def program0_def state0_def
  have g: "globalState ?s2 = globalState (snd ?r1)" by (simp add: eval_defs ex globalState_def)
  have k: "depthCompareKey ?s2 = depthCompareKey (snd ?r1)" by (simp add: eval_defs ex)
  have r: "fst ?r1 = 0" by (simp add: eval_defs ex)
  have n: "length (created ?s2) = 2" by (simp add: eval_defs ex)
  from partition_isolation [OF a refl g k] r n g show ?thesis by simp
qed

text \<open>
  C10. With the depth bit of the attachment code clear, \<open>getGlobalStateKey\<close> gives the
  same key for any two stencil ids, and in a booted system, after any history, a call of
  \<open>setStencilMode\<close> leaves the partition key, the active partition, the partition table
  and the program-key shortcut as they were.
\<close>

theorem stencil_mode_without_depth:
  "(and32 renderTarget 1 = 0 \<longrightarrow>
      getGlobalStateKey s1 m c renderTarget h = getGlobalStateKey s2 m c renderTarget h) \<and>
   (and32 (depthStencilAttachment (run ops (boot d))) 1 = 0 \<longrightarrow>
      (let s = run ops (boot d); s' = setStencilMode sm s
       in prevPipeKey s' = prevPipeKey s \<and> pipeRT s' = pipeRT s \<and>
          pipeStateCaches s' = pipeStateCaches s \<and> prevProgKey s' = prevProgKey s \<and>
          pipeCache s' = pipeCache s))"
proof -
  let ?s = "run ops (boot d)"
  have c: "consistent ?s" by (simp add: run_consistent consistent_boot)
  have "updatePipeHash (?s\<lparr> stencilMode := Some sm \<rparr>) = ?s\<lparr> stencilMode := Some sm \<rparr>"
    if "and32 (depthStencilAttachment ?s) 1 = 0"
    using c that by (simp add: updatePipeHash_def consistent_def globalKey_def getGlobalStateKey_def)
  then show ?thesis
    by (auto simp: getGlobalStateKey_def setStencilMode_def Let_def)
qed

theorem stencil_mode_without_depth_witness:
  "and32 0 1 = 0 \<and> getGlobalStateKey 0 1 15 0 0 = getGlobalStateKey 2 1 15 0 0 \<and>
   and32 (depthStencilAttachment (run [] (boot 0))) 1 = 0 \<and>
   prevPipeKey (setStencilMode 2 (run [] (boot 0))) = prevPipeKey (run [] (boot 0)) \<and>
   pipeRT (setStencilMode 2 (run [] (boot 0))) = pipeRT (run [] (boot 0)) \<and>
   stencilMode (setStencilMode 2 (run [] (boot 0))) = Some 2"
proof -
  have a: "and32 0 1 = 0" by (simp add: and32_def)
  have b: "and32 (depthStencilAttachment (run [] (boot 0))) 1 = 0" by (simp add: eval_defs)
  have c: "stencilMode (setStencilMode 2 (run [] (boot 0))) = Some 2" by (simp add: eval_defs)
  from stencil_mode_without_depth [where renderTarget = 0 and ?s1.0 = 0 and ?s2.0 = 2 and m = 1
      and c = 15 and h = 0 and ops = "[]" and d = 0 and sm = 2] a b c
  show ?thesis unfolding Let_def by blast
qed

section \<open>MultiDrawBuffer: the draw-range table\<close>

text \<open>
  Four typed arrays of 32-bit elements (\<open>baseInstances\<close> is read unsigned, the others
  signed), each with a value of its own: \<open>resize\<close> is the only code that assigns the
  fields and it allocates four fresh arrays. Sizes and counts are natural numbers; the
  numbers of the parameter record are integers, and a product of two of them is the exact
  product, which is what the double arithmetic of the source gives below \<open>2^53\<close>.
\<close>

record DrawInstanceParameters =
  vertexPerInstance :: int
  indexPerInstance :: int
  instanced :: bool

record MultiDrawBuffer =
  offsets :: "32 word list"
  counts :: "32 word list"
  baseInstances :: "32 word list"
  instanceCounts :: "32 word list"
  size_m :: nat
  count :: nat
  params :: "DrawInstanceParameters option"

text \<open>
  \<open>target.set(source, 0)\<close> copies \<open>source\<close> over the start of \<open>target\<close> and throws a
  \<open>RangeError\<close> when \<open>source\<close> is the longer one.
\<close>

definition set_at0 :: "'a list \<Rightarrow> 'a list \<Rightarrow> error + 'a list" where
  "set_at0 target source =
     (if length source \<le> length target then Inr (source @ drop (length source) target)
      else Inl RangeError)"

definition resize :: "nat \<Rightarrow> bool \<Rightarrow> MultiDrawBuffer \<Rightarrow> error + MultiDrawBuffer" where
  "resize sz copyOldInfo b =
     (let oldSize = size_m b;
          copy = (\<lambda>old. if copyOldInfo then set_at0 (replicate sz 0) old else Inr (replicate sz 0))
      in case copy (counts b) of Inl e \<Rightarrow> Inl e | Inr cnt \<Rightarrow>
         (case copy (offsets b) of Inl e \<Rightarrow> Inl e | Inr off \<Rightarrow>
         (case copy (instanceCounts b) of Inl e \<Rightarrow> Inl e | Inr inst \<Rightarrow>
         (case copy (baseInstances b) of Inl e \<Rightarrow> Inl e | Inr base \<Rightarrow>
            Inr (b\<lparr> size_m := sz, offsets := off, instanceCounts := inst, baseInstances := base,
                   counts := (case params b of
                                None \<Rightarrow> cnt
                              | Some p \<Rightarrow> fold (\<lambda>i c. c[i := word_of_int (vertexPerInstance p)])
                                           [oldSize..<sz] cnt) \<rparr>)))))"

text \<open>
  Before the constructor calls \<open>resize\<close> the array fields and \<open>size\<close> are undefined:
  \<open>this.size || 0\<close> is 0 and nothing is copied, as with empty arrays.
\<close>

definition unconstructed :: "DrawInstanceParameters option \<Rightarrow> MultiDrawBuffer" where
  "unconstructed p = \<lparr> offsets = [], counts = [], baseInstances = [], instanceCounts = [],
      size_m = 0, count = 0, params = p \<rparr>"

definition MultiDrawBuffer_new :: "nat \<Rightarrow> DrawInstanceParameters option \<Rightarrow> error + MultiDrawBuffer" where
  "MultiDrawBuffer_new capacity p = resize capacity True (unconstructed p)"

text \<open>
  The loop \<open>while (sz > new_size) new_size *= 2\<close> does not end when the size is 0, so it is
  a partial function: \<open>None\<close> stands for not returning.
\<close>

partial_function (option) growSize :: "nat \<Rightarrow> nat \<Rightarrow> nat option" where
  "growSize sz new_size = (if sz > new_size then growSize sz (new_size * 2) else Some new_size)"

declare growSize.simps [code]

definition ensureSize :: "nat \<Rightarrow> MultiDrawBuffer \<Rightarrow> (error + MultiDrawBuffer) option" where
  "ensureSize sz b =
     (if sz \<le> size_m b then Some (Inr b)
      else case growSize sz (size_m b) of
             None \<Rightarrow> None
           | Some new_size \<Rightarrow> Some (resize new_size True b))"

lemma fold_fill:
  "a \<le> n \<Longrightarrow> n \<le> length xs \<Longrightarrow> fold (\<lambda>i c. c[i := v]) [a..<n] xs = take a xs @ replicate (n - a) v @ drop n xs"
proof (induction n)
  case 0
  then show ?case by simp
next
  case (Suc n)
  show ?case
  proof (cases "a = Suc n")
    case True
    then show ?thesis by simp
  next
    case False
    with Suc.prems have le: "a \<le> n" "n < length xs" by simp_all
    then have "fold (\<lambda>i c. c[i := v]) [a..<n] xs = take a xs @ replicate (n - a) v @ drop n xs"
      using Suc.IH by simp
    moreover have "(take a xs @ replicate (n - a) v @ drop n xs)[n := v]
        = take a xs @ replicate (Suc n - a) v @ drop (Suc n) xs"
      using le
      by (simp add: list_update_append Suc_diff_le replicate_append_same upd_conv_take_nth_drop[of 0, simplified] 
          Cons_nth_drop_Suc[symmetric])
    ultimately show ?thesis using le by simp
  qed
qed


text \<open>
  Reading a typed array outside its bounds gives \<open>undefined\<close>, arithmetic on it gives
  \<open>NaN\<close>, and storing \<open>NaN\<close> in an integer array stores 0.
\<close>

definition store_i32 :: "int option \<Rightarrow> 32 word" where
  "store_i32 v = (case v of None \<Rightarrow> 0 | Some x \<Rightarrow> word_of_int x)"

definition read_u32 :: "32 word list \<Rightarrow> nat \<Rightarrow> int option" where
  "read_u32 xs j = (if j < length xs then Some (uint (xs ! j)) else None)"

definition read_i32 :: "32 word list \<Rightarrow> nat \<Rightarrow> int option" where
  "read_i32 xs j = (if j < length xs then Some (sint (xs ! j)) else None)"

definition writeRange ::
  "nat \<Rightarrow> (int \<Rightarrow> int) \<Rightarrow> (int \<Rightarrow> int) \<Rightarrow> MultiDrawBuffer \<Rightarrow> MultiDrawBuffer" where
  "writeRange j f g b =
     b\<lparr> offsets := (offsets b)[j := store_i32 (map_option f (read_u32 (baseInstances b) j))],
        counts := (counts b)[j := store_i32 (map_option g (read_i32 (instanceCounts b) j))] \<rparr>"

definition convertInstancesToVertices ::
  "DrawInstanceParameters option \<Rightarrow> MultiDrawBuffer \<Rightarrow> error + MultiDrawBuffer" where
  "convertInstancesToVertices params_opt b =
     (case (case params_opt of Some p \<Rightarrow> Some p | None \<Rightarrow> params b) of
        None \<Rightarrow> Inl TypeError
      | Some p \<Rightarrow>
          if instanced p then Inr b
          else if indexPerInstance p > 0 then
            Inr (fold (\<lambda>j. writeRange j (\<lambda>x. x * indexPerInstance p * 4) (\<lambda>x. x * indexPerInstance p))
                   [0..<count b] b)
          else
            Inr (fold (\<lambda>j. writeRange j (\<lambda>x. x * vertexPerInstance p) (\<lambda>x. x * vertexPerInstance p))
                   [0..<count b] b))"

lemma fold_writeRange_fields [simp]:
  "baseInstances (fold (\<lambda>j. writeRange j f g) js b) = baseInstances b"
  "instanceCounts (fold (\<lambda>j. writeRange j f g) js b) = instanceCounts b"
  "count (fold (\<lambda>j. writeRange j f g) js b) = count b"
  "params (fold (\<lambda>j. writeRange j f g) js b) = params b"
  "size_m (fold (\<lambda>j. writeRange j f g) js b) = size_m b"
  by (induction js arbitrary: b; simp add: writeRange_def)+

lemma fold_writeRange_arrays:
  "offsets (fold (\<lambda>j. writeRange j f g) js b) =
     fold (\<lambda>j xs. xs[j := store_i32 (map_option f (read_u32 (baseInstances b) j))]) js (offsets b)"
  "counts (fold (\<lambda>j. writeRange j f g) js b) =
     fold (\<lambda>j xs. xs[j := store_i32 (map_option g (read_i32 (instanceCounts b) j))]) js (counts b)"
  by (induction js arbitrary: b; simp add: writeRange_def)+

lemma fold_update_twice:
  "fold (\<lambda>j xs. xs[j := h j]) js (fold (\<lambda>j xs. xs[j := h j]) js xs) = fold (\<lambda>j xs. xs[j := h j]) js xs"
proof -
  have len: "length (fold (\<lambda>j xs. xs[j := h j]) js xs) = length xs" for js and xs :: "'a list"
    by (induction js arbitrary: xs) simp_all
  have nth: "fold (\<lambda>j xs. xs[j := h j]) js xs ! i = (if i \<in> set js then h i else xs ! i)"
    if "i < length xs" for js i and xs :: "'a list"
    using that by (induction js arbitrary: xs) (auto simp: nth_list_update)
  show ?thesis
    by (rule nth_equalityI) (simp_all add: len nth)
qed

lemma fold_writeRange_idem:
  "fold (\<lambda>j. writeRange j f g) js (fold (\<lambda>j. writeRange j f g) js b) = fold (\<lambda>j. writeRange j f g) js b"
proof -
  let ?b1 = "fold (\<lambda>j. writeRange j f g) js b"
  have "offsets (fold (\<lambda>j. writeRange j f g) js ?b1) = offsets ?b1"
    by (simp add: fold_writeRange_arrays(1)[of f g js ?b1])
       (simp add: fold_writeRange_arrays(1)[of f g js b] fold_update_twice)
  moreover have "counts (fold (\<lambda>j. writeRange j f g) js ?b1) = counts ?b1"
    by (simp add: fold_writeRange_arrays(2)[of f g js ?b1])
       (simp add: fold_writeRange_arrays(2)[of f g js b] fold_update_twice)
  ultimately show ?thesis
    by (intro MultiDrawBuffer.equality) simp_all
qed

text \<open>
  C8. \<open>convertInstancesToVertices\<close> is idempotent. With the parameters in force (the
  argument, or the buffer's own when none is passed) the call returns a buffer on which
  a second call with the same argument changes nothing, and for hardware-instanced
  parameters the first call already changes nothing.
\<close>

theorem convertInstancesToVertices_idempotent:
  "(case params_opt of Some q \<Rightarrow> Some q | None \<Rightarrow> params b) = Some p \<Longrightarrow>
   (\<exists>b1. convertInstancesToVertices params_opt b = Inr b1 \<and>
         convertInstancesToVertices params_opt b1 = Inr b1 \<and>
         (instanced p \<longrightarrow> b1 = b))"
  by (auto simp: convertInstancesToVertices_def fold_writeRange_idem split: option.splits)

lemma set_at0_grow:
  "length xs \<le> n \<Longrightarrow> set_at0 (replicate n v) xs = Inr (xs @ replicate (n - length xs) v)"
  by (simp add: set_at0_def)

lemma resize_grow:
  assumes "size_m b \<le> sz" and "length (offsets b) = size_m b" and "length (counts b) = size_m b"
    and "length (baseInstances b) = size_m b" and "length (instanceCounts b) = size_m b"
  shows "resize sz True b =
     Inr (b\<lparr> size_m := sz,
            offsets := offsets b @ replicate (sz - size_m b) 0,
            instanceCounts := instanceCounts b @ replicate (sz - size_m b) 0,
            baseInstances := baseInstances b @ replicate (sz - size_m b) 0,
            counts := counts b @ replicate (sz - size_m b)
              (case params b of None \<Rightarrow> 0 | Some p \<Rightarrow> word_of_int (vertexPerInstance p)) \<rparr>)"
proof -
  have fill: "fold (\<lambda>i c. c[i := v]) [size_m b..<sz] (counts b @ replicate (sz - size_m b) 0)
      = counts b @ replicate (sz - size_m b) v" for v :: "32 word"
    using assms(1,3) fold_fill[of "size_m b" sz "counts b @ replicate (sz - size_m b) 0" v] by simp
  show ?thesis
    using assms by (simp add: resize_def Let_def set_at0_grow fill split: option.splits)
qed

text \<open>
  C7. Draw-range growth. On a buffer of capacity 64 with any contents and any
  parameters, \<open>ensureSize 5\<close> changes nothing, and \<open>ensureSize 130\<close> doubles 64 to
  128 to 256 (the three trips of its loop) and resizes once to 256: the 64 old entries of
  each array are kept in front of 192 new ones, which are 0 except in \<open>counts\<close>, where
  they hold the vertex-per-instance count when the buffer has parameters. The array
  stores that count as a signed 32-bit integer, which reads back as the count itself
  whenever the count lies in the signed 32-bit range.
\<close>

theorem ensureSize_growth:
  assumes "size_m b = 64" and "length (offsets b) = 64" and "length (counts b) = 64"
    and "length (baseInstances b) = 64" and "length (instanceCounts b) = 64"
  shows "ensureSize 5 b = Some (Inr b) \<and>
         growSize 130 64 = growSize 130 128 \<and> growSize 130 128 = growSize 130 256 \<and>
         growSize 130 256 = Some 256 \<and>
         ensureSize 130 b =
           Some (Inr (b\<lparr> size_m := 256,
                         offsets := offsets b @ replicate 192 0,
                         instanceCounts := instanceCounts b @ replicate 192 0,
                         baseInstances := baseInstances b @ replicate 192 0,
                         counts := counts b @ replicate 192
                           (case params b of None \<Rightarrow> 0 | Some p \<Rightarrow> word_of_int (vertexPerInstance p)) \<rparr>)) \<and>
         (\<forall>p b'. params b = Some p \<and> - 2147483648 \<le> vertexPerInstance p \<and>
                 vertexPerInstance p < 2147483648 \<and> ensureSize 130 b = Some (Inr b') \<longrightarrow>
                 map sint (drop 64 (counts b')) = replicate 192 (vertexPerInstance p))"
proof -
  have g: "growSize 130 64 = growSize 130 128" "growSize 130 128 = growSize 130 256"
    "growSize 130 256 = Some 256"
    by (subst growSize.simps, simp)+
  have "resize 256 True b = Inr (b\<lparr> size_m := 256,
                         offsets := offsets b @ replicate 192 0,
                         instanceCounts := instanceCounts b @ replicate 192 0,
                         baseInstances := baseInstances b @ replicate 192 0,
                         counts := counts b @ replicate 192
                           (case params b of None \<Rightarrow> 0 | Some p \<Rightarrow> word_of_int (vertexPerInstance p)) \<rparr>)"
    using resize_grow[of b 256] assms by simp
  then have e: "ensureSize 130 b =
           Some (Inr (b\<lparr> size_m := 256,
                         offsets := offsets b @ replicate 192 0,
                         instanceCounts := instanceCounts b @ replicate 192 0,
                         baseInstances := baseInstances b @ replicate 192 0,
                         counts := counts b @ replicate 192
                           (case params b of None \<Rightarrow> 0 | Some p \<Rightarrow> word_of_int (vertexPerInstance p)) \<rparr>))"
    using g assms(1) by (simp add: ensureSize_def)
  have "map sint (drop 64 (counts b')) = replicate 192 (vertexPerInstance p)"
    if "params b = Some p" "- 2147483648 \<le> vertexPerInstance p" "vertexPerInstance p < 2147483648"
      "ensureSize 130 b = Some (Inr b')" for p b'
    using that e assms(3) by (auto simp: sint_in_range)
  then have r: "\<forall>p b'. params b = Some p \<and> - 2147483648 \<le> vertexPerInstance p \<and>
                 vertexPerInstance p < 2147483648 \<and> ensureSize 130 b = Some (Inr b') \<longrightarrow>
                 map sint (drop 64 (counts b')) = replicate 192 (vertexPerInstance p)"
    by blast
  have f: "ensureSize 5 b = Some (Inr b)"
    using assms(1) by (simp add: ensureSize_def)
  from f g e r show ?thesis by blast
qed

text \<open>
  A buffer as constructed with capacity 64 for quads of 6 vertices, after three ranges
  were written to it.
\<close>

definition quadParams :: DrawInstanceParameters where
  "quadParams = \<lparr> vertexPerInstance = 6, indexPerInstance = 0, instanced = False \<rparr>"

definition quadBuffer :: MultiDrawBuffer where
  "quadBuffer = \<lparr> offsets = [0, 6, 12] @ replicate 61 0, counts = [6, 12, 18] @ replicate 61 6,
      baseInstances = [0, 1, 2] @ replicate 61 0, instanceCounts = [1, 2, 3] @ replicate 61 0,
      size_m = 64, count = 3, params = Some quadParams \<rparr>"

lemma MultiDrawBuffer_new_64:
  "MultiDrawBuffer_new 64 (Some quadParams) =
     Inr \<lparr> offsets = replicate 64 0, counts = replicate 64 6,
      baseInstances = replicate 64 0, instanceCounts = replicate 64 0,
      size_m = 64, count = 0, params = Some quadParams \<rparr>"
  using resize_grow[of "unconstructed (Some quadParams)" 64]
  by (simp add: MultiDrawBuffer_new_def unconstructed_def quadParams_def)

theorem ensureSize_growth_witness:
  "MultiDrawBuffer_new 64 (Some quadParams) =
     Inr (quadBuffer\<lparr> offsets := replicate 64 0, counts := replicate 64 6,
            baseInstances := replicate 64 0, instanceCounts := replicate 64 0, count := 0 \<rparr>) \<and>
   size_m quadBuffer = 64 \<and> length (offsets quadBuffer) = 64 \<and> length (counts quadBuffer) = 64 \<and>
   length (baseInstances quadBuffer) = 64 \<and> length (instanceCounts quadBuffer) = 64 \<and>
   ensureSize 5 quadBuffer = Some (Inr quadBuffer) \<and>
   ensureSize 130 quadBuffer =
     Some (Inr \<lparr> offsets = [0, 6, 12] @ replicate 253 0, counts = [6, 12, 18] @ replicate 253 6,
       baseInstances = [0, 1, 2] @ replicate 253 0, instanceCounts = [1, 2, 3] @ replicate 253 0,
       size_m = 256, count = 3, params = Some quadParams \<rparr>)"
proof -
  have h: "size_m quadBuffer = 64" "length (offsets quadBuffer) = 64" "length (counts quadBuffer) = 64"
    "length (baseInstances quadBuffer) = 64" "length (instanceCounts quadBuffer) = 64"
    by (simp_all add: quadBuffer_def)
  have r: "replicate 61 (0 :: 32 word) @ replicate 192 0 = replicate 253 0"
    "replicate 61 (6 :: 32 word) @ replicate 192 6 = replicate 253 6"
    by (simp_all flip: replicate_add)
  have n: "MultiDrawBuffer_new 64 (Some quadParams) =
     Inr (quadBuffer\<lparr> offsets := replicate 64 0, counts := replicate 64 6,
            baseInstances := replicate 64 0, instanceCounts := replicate 64 0, count := 0 \<rparr>)"
    by (simp add: MultiDrawBuffer_new_64 quadBuffer_def)
  from ensureSize_growth [OF h] h n show ?thesis
    by (simp add: quadBuffer_def quadParams_def r)
qed

theorem convertInstancesToVertices_idempotent_witness:
  "convertInstancesToVertices None quadBuffer = Inr quadBuffer \<and>
   convertInstancesToVertices (Some (quadParams\<lparr> instanced := True \<rparr>)) quadBuffer = Inr quadBuffer \<and>
   convertInstancesToVertices (Some (quadParams\<lparr> indexPerInstance := 6 \<rparr>)) quadBuffer =
     Inr (quadBuffer\<lparr> offsets := [0, 24, 48] @ replicate 61 0 \<rparr>) \<and>
   convertInstancesToVertices (Some (quadParams\<lparr> indexPerInstance := 6 \<rparr>))
       (quadBuffer\<lparr> offsets := [0, 24, 48] @ replicate 61 0 \<rparr>) =
     Inr (quadBuffer\<lparr> offsets := [0, 24, 48] @ replicate 61 0 \<rparr>)"
proof -
  have e: "convertInstancesToVertices (Some (quadParams\<lparr> indexPerInstance := 6 \<rparr>)) quadBuffer =
     Inr (quadBuffer\<lparr> offsets := [0, 24, 48] @ replicate 61 0 \<rparr>)"
    by (simp add: convertInstancesToVertices_def quadBuffer_def quadParams_def writeRange_def
        read_u32_def read_i32_def store_i32_def upt_rec numeral_3_eq_3 replicate_Suc[symmetric]
        del: replicate_Suc)
  have n: "convertInstancesToVertices None quadBuffer = Inr quadBuffer"
    by (simp add: convertInstancesToVertices_def quadBuffer_def quadParams_def writeRange_def
        read_u32_def read_i32_def store_i32_def upt_rec numeral_3_eq_3)
  from convertInstancesToVertices_idempotent
    [where params_opt = "Some (quadParams\<lparr> indexPerInstance := 6 \<rparr>)" and b = quadBuffer
       and p = "quadParams\<lparr> indexPerInstance := 6 \<rparr>"]
    convertInstancesToVertices_idempotent
    [where params_opt = "Some (quadParams\<lparr> instanced := True \<rparr>)" and b = quadBuffer
       and p = "quadParams\<lparr> instanced := True \<rparr>"]
    e n
  show ?thesis by (auto simp: quadParams_def)
qed

section \<open>TexturePool: pooled render textures\<close>

subsection \<open>Double arithmetic\<close>

text \<open>
  Frame sizes, the resolution and the shrink factor are doubles. A double is modelled as
  the real number it denotes, and every product, difference and quotient of the source
  is the exact result rounded to the nearest double, ties to even: \<open>roundDouble\<close>.
  A literal such as \<open>1.4\<close> or \<open>1e-6\<close> is the double nearest to it. Pixel sizes,
  the threshold, alignment and padding are integers, which doubles hold exactly below
  \<open>2^53\<close>.

  \<open>binade x\<close> is the exponent \<open>e\<close> with \<open>2^e \<le> x < 2^(e+1)\<close> of a positive
  \<open>x\<close>, found by halving or doubling; \<open>ulp x\<close> is the spacing of the doubles around
  \<open>x\<close>, 52 binary places below the leading one and never finer than that of the
  smallest normal double. The model has no infinity and no NaN: a result beyond the
  largest double is rounded to 53 bits like any other, and a quotient by zero is 0.
\<close>

function halvings :: "real \<Rightarrow> nat" where
  "halvings x = (if x < 2 then 0 else Suc (halvings (x / 2)))"
  by pat_completeness auto
termination
proof (relation "measure (\<lambda>x. nat \<lfloor>x\<rfloor>)")
  show "wf (measure (\<lambda>x. nat \<lfloor>x\<rfloor>))" by simp
next
  fix x :: real assume "\<not> x < 2"
  then have "x / 2 < of_int \<lfloor>x\<rfloor>" by linarith
  then have "\<lfloor>x / 2\<rfloor> < \<lfloor>x\<rfloor>" by (simp add: floor_less_iff)
  moreover have "0 < \<lfloor>x\<rfloor>" using \<open>\<not> x < 2\<close> by linarith
  ultimately show "(x / 2, x) \<in> measure (\<lambda>x. nat \<lfloor>x\<rfloor>)" by simp
qed

function doublings :: "real \<Rightarrow> nat" where
  "doublings x = (if x \<le> 0 \<or> 1 \<le> x then 0 else Suc (doublings (2 * x)))"
  by pat_completeness auto
termination
proof (relation "measure (\<lambda>x. nat \<lceil>1 / x\<rceil>)")
  show "wf (measure (\<lambda>x. nat \<lceil>1 / x\<rceil>))" by simp
next
  fix x :: real assume a: "\<not> (x \<le> 0 \<or> 1 \<le> x)"
  then have x: "0 < x" "x < 1" by simp_all
  then have y: "1 < 1 / x" by simp
  then have c: "2 \<le> \<lceil>1 / x\<rceil>" by linarith
  have "1 / (2 * x) = (1 / x) / 2" by simp
  also have "\<dots> \<le> of_int \<lceil>1 / x\<rceil> - 1"
    using y c le_of_int_ceiling[of "1 / x"] by linarith
  finally have "\<lceil>1 / (2 * x)\<rceil> < \<lceil>1 / x\<rceil>" by (simp only: ceiling_less_iff)
  with c have "nat \<lceil>1 / (2 * x)\<rceil> < nat \<lceil>1 / x\<rceil>" by linarith
  then show "(2 * x, x) \<in> measure (\<lambda>x. nat \<lceil>1 / x\<rceil>)" by (simp only: in_measure)
qed

declare halvings.simps [simp del] doublings.simps [simp del]

definition binade :: "real \<Rightarrow> int" where
  "binade x = (if 1 \<le> x then int (halvings x) else - int (doublings x))"

definition pow2 :: "int \<Rightarrow> real" where
  "pow2 e = (if 0 \<le> e then 2 ^ nat e else 1 / 2 ^ nat (- e))"

definition ulp :: "real \<Rightarrow> real" where
  "ulp x = pow2 (max (binade \<bar>x\<bar>) (- 1022) - 52)"

definition roundEven :: "real \<Rightarrow> int" where
  "roundEven y =
     (let n = \<lfloor>y\<rfloor>; r = y - of_int n
      in if r < 1 / 2 then n else if 1 / 2 < r then n + 1 else if even n then n else n + 1)"

definition roundDouble :: "real \<Rightarrow> real" where
  "roundDouble x = of_int (roundEven (x / ulp x)) * ulp x"

definition fmul :: "real \<Rightarrow> real \<Rightarrow> real" where
  "fmul x y = roundDouble (x * y)"

definition fsub :: "real \<Rightarrow> real \<Rightarrow> real" where
  "fsub x y = roundDouble (x - y)"

definition fdiv :: "real \<Rightarrow> real \<Rightarrow> real" where
  "fdiv x y = roundDouble (x / y)"

lemmas double_eval = fmul_def fsub_def fdiv_def roundDouble_def roundEven_def ulp_def pow2_def
  binade_def halvings.simps doublings.simps Let_def

lemma halvings_bounds: "1 \<le> x \<Longrightarrow> 2 ^ halvings x \<le> x \<and> x < 2 ^ Suc (halvings x)"
proof (induction x rule: halvings.induct)
  case (1 x)
  show ?case
  proof (cases "x < 2")
    case True
    with 1(2) show ?thesis by (simp add: halvings.simps)
  next
    case False
    then have "1 \<le> x / 2" by simp
    from 1(1)[OF False this] False show ?thesis
      by (simp add: halvings.simps[of x])
  qed
qed

lemma roundEven_near: "\<bar>of_int (roundEven y) - y\<bar> \<le> 1 / 2"
  unfolding roundEven_def Let_def by (auto; linarith)

lemma ulp_pos: "0 < ulp x"
  by (simp add: ulp_def pow2_def)

text \<open>Rounding moves a number by at most half the spacing.\<close>

lemma roundDouble_near: "\<bar>roundDouble x - x\<bar> \<le> ulp x / 2"
proof -
  have "roundDouble x - x = (of_int (roundEven (x / ulp x)) - x / ulp x) * ulp x"
    using ulp_pos[of x] by (simp add: roundDouble_def field_simps)
  then have "\<bar>roundDouble x - x\<bar> = \<bar>of_int (roundEven (x / ulp x)) - x / ulp x\<bar> * ulp x"
    using ulp_pos[of x] by (simp add: abs_mult)
  also have "\<dots> \<le> 1 / 2 * ulp x"
    using roundEven_near[of "x / ulp x"] ulp_pos[of x] by (intro mult_right_mono) simp_all
  finally show ?thesis by simp
qed

lemma ulp_large: "1 \<le> x \<Longrightarrow> ulp x \<le> x / 2 ^ 52"
proof -
  assume x: "1 \<le> x"
  let ?h = "halvings x"
  from halvings_bounds[OF x] have h: "2 ^ ?h \<le> x" by simp
  have "ulp x = pow2 (int ?h - 52)" using x by (simp add: ulp_def binade_def)
  also have "\<dots> = 2 ^ ?h / 2 ^ 52"
  proof (cases "52 \<le> ?h")
    case True
    then have "nat (int ?h - 52) = ?h - 52" by simp
    with True show ?thesis by (simp add: pow2_def power_diff)
  next
    case False
    then have "nat (52 - int ?h) = 52 - ?h" by simp
    with False show ?thesis by (simp add: pow2_def power_diff)
  qed
  also have "\<dots> \<le> x / 2 ^ 52" using h by (simp add: divide_right_mono)
  finally show ?thesis .
qed

lemma ulp_small: "\<bar>x\<bar> < 1 \<Longrightarrow> ulp x \<le> 1 / 2 ^ 52"
proof -
  assume "\<bar>x\<bar> < 1"
  then have "binade \<bar>x\<bar> \<le> 0" by (simp add: binade_def)
  then have "max (binade \<bar>x\<bar>) (- 1022) - 52 \<le> - 52" by simp
  moreover have "pow2 e \<le> 1 / 2 ^ 52" if "e \<le> - 52" for e
  proof -
    from that have "52 \<le> nat (- e)" by simp
    then have "(2::real) ^ 52 \<le> 2 ^ nat (- e)" by (intro power_increasing) simp_all
    with that show ?thesis by (simp add: pow2_def frac_le)
  qed
  ultimately show ?thesis by (simp add: ulp_def)
qed

lemma roundDouble_upper:
  assumes "1 \<le> x"
  shows "roundDouble x \<le> x + x / 2 ^ 53"
proof -
  have "roundDouble x - x \<le> ulp x / 2" using roundDouble_near[of x] by linarith
  moreover have "ulp x / 2 \<le> x / 2 ^ 53" using ulp_large[OF assms] by simp
  ultimately show ?thesis by linarith
qed

text \<open>The literal \<open>1.4\<close>.\<close>

lemma literal_1_4: "roundDouble (7 / 5) = 6305039478318694 / 4503599627370496"
  by (simp add: double_eval)

subsection \<open>The pool\<close>

text \<open>
  Modelled from the spec: \<open>nextPow2\<close> of the maths module, which is not among the
  sources. The spec has it round a dimension up to the next power of two; the least
  power of two that is at least \<open>v\<close> is taken, and 1 below that.
\<close>

function nextPow2 :: "int \<Rightarrow> int" where
  "nextPow2 v = (if v \<le> 1 then 1 else 2 * nextPow2 ((v + 1) div 2))"
  by pat_completeness auto
termination
  by (relation "measure (\<lambda>v. nat v)") auto

declare nextPow2.simps [simp del]

text \<open>
  What the pool reads and writes of a texture and its source. Textures are objects with
  an identity, their \<open>uid\<close>: the pool record holds the state of every texture object
  by uid, and buckets and callers hold uids.
\<close>

record texture =
  pixelWidth :: int
  pixelHeight :: int
  resolution :: real
  width :: real
  height :: real
  frameWidth :: real
  frameHeight :: real
  antialias :: bool
  hdrFormat :: bool
  label :: nat
  destroyed :: bool

text \<open>
  \<open>texturePool\<close> maps a bucket key to its stack of free textures (an association list,
  so that the buckets can be walked), \<open>poolKeyHash\<close> a texture to the key it was
  checked out under. \<open>nextUid\<close> is the uid the next created texture gets and
  \<open>labelCount\<close> the module's label counter.
\<close>

record TexturePool =
  texturePool :: "(int \<times> nat list) list"
  poolKeyHash :: "nat \<rightharpoonup> int"
  screenWidth :: int
  screenHeight :: int
  pixelsWidth :: int
  pixelsHeight :: int
  screenThreshold :: int
  screenAlign :: int
  screenPadding :: int
  screenSizeFactor :: real
  enableFullScreen :: bool
  textures :: "nat \<Rightarrow> texture"
  nextUid :: nat
  labelCount :: nat

text \<open>The state of a texture object that has not been created yet.\<close>

definition noTexture :: texture where
  "noTexture =
     \<lparr> pixelWidth = 0, pixelHeight = 0, resolution = 1, width = 0, height = 0,
       frameWidth = 0, frameHeight = 0, antialias = False, hdrFormat = False, label = 0,
       destroyed = False \<rparr>"

definition TexturePool_new :: TexturePool where
  "TexturePool_new =
     \<lparr> texturePool = [], poolKeyHash = Map.empty, screenWidth = 0, screenHeight = 0,
       pixelsWidth = 0, pixelsHeight = 0, screenThreshold = 512, screenAlign = 1,
       screenPadding = 0, screenSizeFactor = roundDouble (7 / 5), enableFullScreen = False,
       textures = (\<lambda>_. noTexture), nextUid = 0, labelCount = 0 \<rparr>"

definition createTexture :: "int \<Rightarrow> int \<Rightarrow> bool \<Rightarrow> bool \<Rightarrow> TexturePool \<Rightarrow> nat \<times> TexturePool" where
  "createTexture pw ph aa useHdr p =
     (nextUid p,
      p\<lparr> textures := (textures p)(nextUid p :=
            \<lparr> pixelWidth = pw, pixelHeight = ph, resolution = 1,
              width = of_int pw, height = of_int ph,
              frameWidth = of_int pw, frameHeight = of_int ph,
              antialias = aa, hdrFormat = useHdr, label = labelCount p, destroyed = False \<rparr>),
         nextUid := Suc (nextUid p), labelCount := Suc (labelCount p) \<rparr>)"

text \<open>\<open>Math.ceil((frame * resolution) - 1e-6)\<close>.\<close>

definition scaled :: "real \<Rightarrow> real \<Rightarrow> int" where
  "scaled frame res = \<lceil>fsub (fmul frame res) (roundDouble (1 / 1000000))\<rceil>"

text \<open>
  \<open>while (width <= Math.ceil(screenWidth / factor)) screenWidth = Math.ceil(screenWidth / factor)\<close>:
  the loop need not end (a factor of 1 never shrinks), so \<open>None\<close> stands for not
  returning.
\<close>

partial_function (option) shrinkScreen :: "real \<Rightarrow> int \<Rightarrow> int \<Rightarrow> int option" where
  "shrinkScreen factor w screen =
     (if w \<le> \<lceil>fdiv (of_int screen) factor\<rceil>
      then shrinkScreen factor w \<lceil>fdiv (of_int screen) factor\<rceil>
      else Some screen)"

declare shrinkScreen.simps [code]

text \<open>The two sizing regimes: the allocated width and height, and the sign of the key.\<close>

definition optimalSize :: "int \<Rightarrow> int \<Rightarrow> bool \<Rightarrow> TexturePool \<Rightarrow> (int \<times> int \<times> int) option" where
  "optimalSize w h ignoreScreen p =
     (if ignoreScreen \<or> w \<le> screenThreshold p \<or> h \<le> screenThreshold p
         \<or> w > pixelsWidth p \<or> h > pixelsHeight p
      then Some (nextPow2 w, nextPow2 h, 1)
      else (case shrinkScreen (screenSizeFactor p) w (pixelsWidth p) of
              None \<Rightarrow> None
            | Some sw \<Rightarrow>
                (case shrinkScreen (screenSizeFactor p) h (pixelsHeight p) of
                   None \<Rightarrow> None
                 | Some sh \<Rightarrow> Some (sw, sh, - 1))))"

definition poolKey :: "int \<Rightarrow> int \<Rightarrow> int \<Rightarrow> bool \<Rightarrow> bool \<Rightarrow> int" where
  "poolKey sign w h aa useHdr =
     sign * (shl32 w 16 + shl32 h 2 + (if aa then 1 else 0) + (if useHdr then 2 else 0))"

text \<open>
  Taking a texture out of a bucket: the bucket is created empty when it is missing, its
  last texture is popped, and a texture is created when there was none to pop.
\<close>

definition checkout :: "int \<Rightarrow> int \<Rightarrow> int \<Rightarrow> bool \<Rightarrow> bool \<Rightarrow> TexturePool \<Rightarrow> nat \<times> TexturePool" where
  "checkout key w h aa useHdr p =
     (case map_of (texturePool p) key of
        None \<Rightarrow> createTexture w h aa useHdr (p\<lparr> texturePool := AList.update key [] (texturePool p) \<rparr>)
      | Some ts \<Rightarrow>
          if ts = [] then createTexture w h aa useHdr p
          else (last ts, p\<lparr> texturePool := AList.update key (butlast ts) (texturePool p) \<rparr>))"

definition fitTexture ::
  "nat \<Rightarrow> int \<Rightarrow> int \<Rightarrow> real \<Rightarrow> real \<Rightarrow> real \<Rightarrow> int \<Rightarrow> TexturePool \<Rightarrow> TexturePool" where
  "fitTexture t w h fw fh res key p =
     p\<lparr> textures := (textures p)(t :=
          (textures p t)\<lparr> resolution := res, width := fdiv (of_int w) res, height := fdiv (of_int h) res,
                           pixelWidth := w, pixelHeight := h,
                           frameWidth := fw, frameHeight := fh \<rparr>),
        poolKeyHash := (poolKeyHash p)(t \<mapsto> key) \<rparr>"

definition getOptimalTexture ::
  "real \<Rightarrow> real \<Rightarrow> real \<Rightarrow> bool \<Rightarrow> bool \<Rightarrow> bool \<Rightarrow> TexturePool \<Rightarrow> (nat \<times> TexturePool) option" where
  "getOptimalTexture fw fh res aa useHdr ignoreScreen p =
     (case optimalSize (scaled fw res) (scaled fh res) ignoreScreen p of
        None \<Rightarrow> None
      | Some (w, h, sign) \<Rightarrow>
          (case checkout (poolKey sign w h aa useHdr) w h aa useHdr p of
             (t, p1) \<Rightarrow> Some (t, fitTexture t w h fw fh res (poolKey sign w h aa useHdr) p1)))"

definition destroy :: "nat \<Rightarrow> TexturePool \<Rightarrow> TexturePool" where
  "destroy t p = p\<lparr> textures := (textures p)(t := (textures p t)\<lparr> destroyed := True \<rparr>) \<rparr>"

definition returnTexture :: "nat \<Rightarrow> TexturePool \<Rightarrow> TexturePool" where
  "returnTexture t p =
     (case poolKeyHash p t of
        None \<Rightarrow> destroy t p
      | Some key \<Rightarrow>
          (case map_of (texturePool p) key of
             Some arr \<Rightarrow> p\<lparr> texturePool := AList.update key (arr @ [t]) (texturePool p) \<rparr>
           | None \<Rightarrow> destroy t p))"

text \<open>
  \<open>setScreenSize\<close> destroys and drops the buckets with a negative key when a surface
  size had been set before, then records the new size. (\<open>screenAlign\<close> is not 0.)
\<close>

definition setScreenSize :: "int \<Rightarrow> int \<Rightarrow> TexturePool \<Rightarrow> TexturePool" where
  "setScreenSize w h p =
     (if w = screenWidth p \<and> h = screenHeight p then p
      else
        (let p1 = (if pixelsWidth p > 0
                   then fold destroy (concat (map snd (filter (\<lambda>(k, ts). k < 0) (texturePool p))))
                          (p\<lparr> texturePool := filter (\<lambda>(k, ts). \<not> k < 0) (texturePool p) \<rparr>)
                   else p)
         in p1\<lparr> screenWidth := w, screenHeight := h,
               pixelsWidth := \<lceil>fdiv (of_int (w + screenPadding p)) (of_int (screenAlign p))\<rceil> * screenAlign p,
               pixelsHeight := \<lceil>fdiv (of_int (h + screenPadding p)) (of_int (screenAlign p))\<rceil> * screenAlign p \<rparr>))"

lemma shl32_small:
  assumes "0 \<le> x" and "x < 32768"
  shows "shl32 x 16 = x * 65536" and "shl32 x 2 = x * 4"
proof -
  have "sint (word_of_int (x * 65536) :: 32 word) = x * 65536"
    using assms by (intro sint_in_range) linarith+
  then show "shl32 x 16 = x * 65536"
    by (simp add: shl32_def push_bit_eq_mult)
  have "sint (word_of_int (x * 4) :: 32 word) = x * 4"
    using assms by (intro sint_in_range) linarith+
  then show "shl32 x 2 = x * 4"
    by (simp add: shl32_def push_bit_eq_mult)
qed

lemma shrinkScreen_exit:
  "\<not> w \<le> \<lceil>fdiv (of_int s) f\<rceil> \<Longrightarrow> shrinkScreen f w s = Some s"
  by (subst shrinkScreen.simps) (simp only: if_False)

lemma shrinkScreen_loop:
  "w \<le> \<lceil>fdiv (of_int s) f\<rceil> \<Longrightarrow> shrinkScreen f w s = shrinkScreen f w \<lceil>fdiv (of_int s) f\<rceil>"
  by (subst shrinkScreen.simps) (simp only: if_True)

text \<open>
  With the factor \<open>1.4\<close> a surface size whose quotient rounds up to more than 3 gets
  strictly smaller, rounding included.
\<close>

lemma shrink_step:
  assumes "3 < \<lceil>fdiv (of_int s) (roundDouble (7 / 5))\<rceil>"
  shows "\<lceil>fdiv (of_int s) (roundDouble (7 / 5))\<rceil> < s \<and> 0 < s"
proof -
  let ?x = "of_int s / (6305039478318694 / 4503599627370496 :: real)"
  have q: "fdiv (of_int s) (roundDouble (7 / 5)) = roundDouble ?x"
    by (simp only: fdiv_def literal_1_4)
  from assms have r: "3 < roundDouble ?x" unfolding q by linarith
  have big: "1 \<le> ?x"
  proof (rule ccontr)
    assume "\<not> 1 \<le> ?x"
    then have lt: "?x < 1" by simp
    show False
    proof (cases "\<bar>?x\<bar> < 1")
      case True
      from roundDouble_near[of ?x] ulp_small[OF True] r lt show False by (simp add: abs_le_iff)
    next
      case False
      with lt have neg: "?x \<le> - 1" by linarith
      then have "ulp ?x \<le> - ?x / 2 ^ 52" using ulp_large[of "- ?x"] by (simp add: ulp_def)
      with roundDouble_near[of ?x] r neg show False by (simp add: abs_le_iff)
    qed
  qed
  from roundDouble_upper[OF big] r have "3 < ?x + ?x / 2 ^ 53" by linarith
  then have "4 < (of_int s :: real)" by (simp add: field_simps)
  then have s: "5 \<le> s" by linarith
  then have "?x + ?x / 2 ^ 53 \<le> of_int s - 1" by (simp add: field_simps)
  with roundDouble_upper[OF big] have "roundDouble ?x \<le> of_int (s - 1)" by simp
  then have "\<lceil>roundDouble ?x\<rceil> \<le> s - 1" by (simp only: ceiling_le_iff)
  with s show ?thesis unfolding q by linarith
qed

lemma shrinkScreen_total:
  assumes "3 < w"
  shows "\<exists>s'. shrinkScreen (roundDouble (7 / 5)) w s = Some s' \<and> s' \<le> s \<and> (w \<le> s \<longrightarrow> w \<le> s')"
proof (induction "nat s" arbitrary: s rule: less_induct)
  case less
  let ?s1 = "\<lceil>fdiv (of_int s) (roundDouble (7 / 5))\<rceil>"
  show ?case
  proof (cases "w \<le> ?s1")
    case False
    then have "shrinkScreen (roundDouble (7 / 5)) w s = Some s" by (rule shrinkScreen_exit)
    then show ?thesis by simp
  next
    case True
    with assms have "3 < ?s1" by linarith
    then have lt: "?s1 < s \<and> 0 < s" by (rule shrink_step)
    then have "nat ?s1 < nat s" by linarith
    from less[OF this] obtain s' where s': "shrinkScreen (roundDouble (7 / 5)) w ?s1 = Some s'" "s' \<le> ?s1"
      "w \<le> ?s1 \<longrightarrow> w \<le> s'"
      by blast
    have "shrinkScreen (roundDouble (7 / 5)) w s = Some s'"
      using shrinkScreen_loop[OF True] s'(1) by simp
    moreover have "s' \<le> s" using s'(2) lt by linarith
    moreover have "w \<le> s'" using s'(3) True by blast
    ultimately show ?thesis by blast
  qed
qed

lemma optimalSize_total:
  assumes "screenSizeFactor p = roundDouble (7 / 5)" and "3 \<le> screenThreshold p"
  shows "\<exists>sz. optimalSize w h ign p = Some sz"
proof (cases "ign \<or> w \<le> screenThreshold p \<or> h \<le> screenThreshold p \<or> w > pixelsWidth p \<or> h > pixelsHeight p")
  case True
  then show ?thesis by (simp add: optimalSize_def)
next
  case False
  with assms(2) have "3 < w" "3 < h" by linarith+
  from shrinkScreen_total[OF this(1), of "pixelsWidth p"] shrinkScreen_total[OF this(2), of "pixelsHeight p"]
  obtain sw sh where "shrinkScreen (roundDouble (7 / 5)) w (pixelsWidth p) = Some sw"
    "shrinkScreen (roundDouble (7 / 5)) h (pixelsHeight p) = Some sh"
    by blast
  with False show ?thesis by (simp add: optimalSize_def assms(1))
qed

lemma nextPow2_lower: "v \<le> nextPow2 v \<and> 1 \<le> nextPow2 v"
proof (induction v rule: nextPow2.induct)
  case (1 v)
  show ?case
  proof (cases "v \<le> 1")
    case True
    then show ?thesis by (simp add: nextPow2.simps)
  next
    case False
    from 1[OF False] False show ?thesis
      by (subst (1 2) nextPow2.simps) (simp, linarith)
  qed
qed

lemma nextPow2_upper: "v \<le> 2 ^ k \<Longrightarrow> nextPow2 v \<le> 2 ^ k"
proof (induction k arbitrary: v)
  case 0
  then show ?case by (simp add: nextPow2.simps)
next
  case (Suc k)
  show ?case
  proof (cases "v \<le> 1")
    case True
    have "(1::int) \<le> 2 ^ Suc k" by (rule one_le_power) simp
    with True show ?thesis by (simp add: nextPow2.simps)
  next
    case False
    from Suc.prems have "(v + 1) div 2 \<le> 2 ^ k" by simp
    from Suc.IH[OF this] False show ?thesis
      by (subst nextPow2.simps) simp
  qed
qed

lemma checkout_fields [simp]:
  "screenThreshold (snd (checkout key w h aa useHdr p)) = screenThreshold p"
  "pixelsWidth (snd (checkout key w h aa useHdr p)) = pixelsWidth p"
  "pixelsHeight (snd (checkout key w h aa useHdr p)) = pixelsHeight p"
  "screenSizeFactor (snd (checkout key w h aa useHdr p)) = screenSizeFactor p"
  "poolKeyHash (snd (checkout key w h aa useHdr p)) = poolKeyHash p"
  by (simp_all add: checkout_def createTexture_def split: option.splits)

lemma checkout_bucket:
  "\<exists>rest. map_of (texturePool (snd (checkout key w h aa useHdr p))) key = Some rest"
  by (simp add: checkout_def createTexture_def update_conv' split: option.splits)

lemma checkout_pop:
  "map_of (texturePool p) key = Some (rest @ [t]) \<Longrightarrow>
   checkout key w h aa useHdr p = (t, p\<lparr> texturePool := AList.update key rest (texturePool p) \<rparr>)"
  by (simp add: checkout_def)

lemma optimalSize_cong:
  "screenThreshold q = screenThreshold p \<Longrightarrow> pixelsWidth q = pixelsWidth p \<Longrightarrow>
   pixelsHeight q = pixelsHeight p \<Longrightarrow> screenSizeFactor q = screenSizeFactor p \<Longrightarrow>
   optimalSize w h ign q = optimalSize w h ign p"
  by (simp add: optimalSize_def split: option.splits)

lemma round_trip:
  assumes "optimalSize (scaled fw res) (scaled fh res) ign p = Some (w, h, sign)"
  shows "\<exists>t p1 p3. getOptimalTexture fw fh res aa useHdr ign p = Some (t, p1) \<and>
           getOptimalTexture fw fh res aa useHdr ign (returnTexture t p1) = Some (t, p3) \<and>
           nextUid p3 = nextUid p1"
proof -
  let ?key = "poolKey sign w h aa useHdr"
  obtain t p0 where co: "checkout ?key w h aa useHdr p = (t, p0)" by (cases "checkout ?key w h aa useHdr p")
  let ?p1 = "fitTexture t w h fw fh res ?key p0"
  have first: "getOptimalTexture fw fh res aa useHdr ign p = Some (t, ?p1)"
    using assms co by (simp add: getOptimalTexture_def)
  obtain rest where rest: "map_of (texturePool ?p1) ?key = Some rest"
    using checkout_bucket[of ?key w h aa useHdr p] co by (auto simp: fitTexture_def)
  have hash: "poolKeyHash ?p1 t = Some ?key" by (simp add: fitTexture_def)
  let ?p2 = "?p1\<lparr> texturePool := AList.update ?key (rest @ [t]) (texturePool ?p1) \<rparr>"
  have ret: "returnTexture t ?p1 = ?p2"
    using hash rest by (simp add: returnTexture_def)
  have "optimalSize (scaled fw res) (scaled fh res) ign ?p2 = optimalSize (scaled fw res) (scaled fh res) ign p"
    using checkout_fields[of ?key w h aa useHdr p] co
    by (intro optimalSize_cong) (simp_all add: fitTexture_def)
  with assms have same: "optimalSize (scaled fw res) (scaled fh res) ign ?p2 = Some (w, h, sign)" by simp
  have pop: "checkout ?key w h aa useHdr ?p2 = (t, ?p2\<lparr> texturePool := AList.update ?key rest (texturePool ?p2) \<rparr>)"
    by (rule checkout_pop) (simp add: update_conv')
  have "getOptimalTexture fw fh res aa useHdr ign ?p2 =
      Some (t, fitTexture t w h fw fh res ?key (?p2\<lparr> texturePool := AList.update ?key rest (texturePool ?p2) \<rparr>))"
    using same pop by (simp add: getOptimalTexture_def)
  moreover have "nextUid (fitTexture t w h fw fh res ?key (?p2\<lparr> texturePool := AList.update ?key rest (texturePool ?p2) \<rparr>))
      = nextUid ?p1"
    by (simp add: fitTexture_def)
  ultimately show ?thesis using first ret by metis
qed


text \<open>
  Of the result of an acquire: the bucket key recorded for the returned texture, and the
  pixel size the texture was given.
\<close>

definition acquiredKey :: "(nat \<times> TexturePool) option \<Rightarrow> int option" where
  "acquiredKey r = (case r of None \<Rightarrow> None | Some (t, p) \<Rightarrow> poolKeyHash p t)"

definition acquiredSize :: "(nat \<times> TexturePool) option \<Rightarrow> (int \<times> int) option" where
  "acquiredSize r =
     (case r of None \<Rightarrow> None
      | Some (t, p) \<Rightarrow> Some (pixelWidth (textures p t), pixelHeight (textures p t)))"

lemma getOptimalTexture_acquired:
  assumes "optimalSize (scaled fw res) (scaled fh res) ign p = Some (w, h, sign)"
  shows "acquiredKey (getOptimalTexture fw fh res aa useHdr ign p) = Some (poolKey sign w h aa useHdr)"
    and "acquiredSize (getOptimalTexture fw fh res aa useHdr ign p) = Some (w, h)"
  using assms
  by (simp_all add: getOptimalTexture_def acquiredKey_def acquiredSize_def fitTexture_def split: prod.splits)

subsection \<open>Claims about the texture pool\<close>

text \<open>
  C9. Pool bucketing round trip. In a pool with the default shrink factor \<open>1.4\<close> and a
  threshold of at least 3 (the default is 512), every acquire returns a texture, and
  after that texture is released the same acquire returns the same texture and creates
  none: the uid counter stays where it was. The 300 by 300 request of the claim is one
  instance.
\<close>

theorem pool_round_trip:
  assumes "screenSizeFactor p = roundDouble (7 / 5)" and "3 \<le> screenThreshold p"
  shows "\<exists>t p1 p3. getOptimalTexture fw fh res aa useHdr ign p = Some (t, p1) \<and>
           getOptimalTexture fw fh res aa useHdr ign (returnTexture t p1) = Some (t, p3) \<and>
           nextUid p3 = nextUid p1"
proof -
  from optimalSize_total[OF assms, of "scaled fw res" "scaled fh res" ign]
  obtain w h sign where "optimalSize (scaled fw res) (scaled fh res) ign p = Some (w, h, sign)"
    by (metis prod_cases3)
  then show ?thesis by (rule round_trip)
qed

text \<open>The requests of the instances, scaled.\<close>

lemma scaled_examples:
  "scaled 300 1 = 300" "scaled 600 1 = 600" "scaled 1001 1 = 1001" "scaled 10000 1 = 10000"
  by (simp_all add: scaled_def double_eval)

theorem pool_round_trip_witness:
  "screenSizeFactor TexturePool_new = roundDouble (7 / 5) \<and> 3 \<le> screenThreshold TexturePool_new \<and>
   (\<exists>p1 p3. getOptimalTexture 300 300 1 False False False TexturePool_new = Some (0, p1) \<and>
       getOptimalTexture 300 300 1 False False False (returnTexture 0 p1) = Some (0, p3) \<and>
       nextUid p3 = 1)"
proof -
  have a: "screenSizeFactor TexturePool_new = roundDouble (7 / 5)" "3 \<le> screenThreshold TexturePool_new"
    by (simp_all add: TexturePool_new_def)
  have f: "map_option fst (getOptimalTexture 300 300 1 False False False TexturePool_new) = Some 0"
    by (simp add: getOptimalTexture_def scaled_examples optimalSize_def TexturePool_new_def checkout_def
        createTexture_def split: prod.splits)
  have n: "map_option (\<lambda>r. nextUid (snd r)) (getOptimalTexture 300 300 1 False False False TexturePool_new) = Some 1"
    by (simp add: getOptimalTexture_def scaled_examples optimalSize_def TexturePool_new_def checkout_def
        createTexture_def fitTexture_def split: prod.splits)
  from pool_round_trip[OF a, of 300 300 1 False False False] f n a show ?thesis
    by auto
qed

text \<open>
  C1 as stated fails. On a newly constructed pool the tracked surface is 0 by 0, so a
  request of 10000 by 10000, which exceeds the threshold 512, exceeds the surface too
  and takes the power-of-two branch: positive key, 16384 by 16384 pixels. The same
  happens on a surface of 1920 by 1080.
\<close>

theorem large_request_counterexample:
  "screenThreshold TexturePool_new = 512 \<and> scaled 10000 1 = 10000 \<and>
   acquiredKey (getOptimalTexture 10000 10000 1 False False False TexturePool_new) = Some 1073807360 \<and>
   acquiredSize (getOptimalTexture 10000 10000 1 False False False TexturePool_new) = Some (16384, 16384) \<and>
   nextPow2 10000 = 16384 \<and>
   acquiredKey (getOptimalTexture 10000 10000 1 False False False (setScreenSize 1920 1080 TexturePool_new))
     = Some 1073807360"
proof -
  have p: "nextPow2 10000 = 16384" by (simp add: nextPow2.simps)
  have s: "pixelsWidth (setScreenSize 1920 1080 TexturePool_new) = 1920"
    "pixelsHeight (setScreenSize 1920 1080 TexturePool_new) = 1080"
    "screenThreshold (setScreenSize 1920 1080 TexturePool_new) = 512"
    by (simp_all add: setScreenSize_def TexturePool_new_def double_eval)
  have o: "optimalSize 10000 10000 False TexturePool_new = Some (16384, 16384, 1)"
    "optimalSize 10000 10000 False (setScreenSize 1920 1080 TexturePool_new) = Some (16384, 16384, 1)"
    by (simp_all add: optimalSize_def s p) (simp add: TexturePool_new_def)
  have k: "poolKey 1 16384 16384 False False = 1073807360"
    by (simp add: poolKey_def shl32_def)
  from getOptimalTexture_acquired[where fw = 10000 and fh = 10000 and res = 1, unfolded scaled_examples, OF o(1), of False False]
    getOptimalTexture_acquired[where fw = 10000 and fh = 10000 and res = 1, unfolded scaled_examples, OF o(2), of False False]
    p k scaled_examples(4)
  show ?thesis by (simp add: TexturePool_new_def)
qed

text \<open>
  C1 amended. Take a pool with the default shrink factor \<open>1.4\<close> and a threshold of at
  least 3, and a request whose scaled width and height both exceed the threshold. If
  \<open>ignoreScreen\<close> is not set and neither scaled dimension exceeds the tracked surface,
  itself below 32768 pixels each way, the texture comes from a screen-relative bucket:
  its size lies between the request and the surface and its key is the negated packing
  of that size and the flags. If \<open>ignoreScreen\<close> is set or a scaled dimension exceeds
  the tracked surface, and both scaled dimensions are at most 16384, the texture comes
  from the power-of-two bucket: its size is the request rounded up by \<open>nextPow2\<close> and
  its key is the positive packing of that size and the flags.
\<close>

theorem large_request_bucket:
  assumes "screenSizeFactor p = roundDouble (7 / 5)" and "3 \<le> screenThreshold p"
    and "screenThreshold p < scaled fw res" and "screenThreshold p < scaled fh res"
  shows "(\<not> ign \<and> scaled fw res \<le> pixelsWidth p \<and> scaled fh res \<le> pixelsHeight p \<and>
          pixelsWidth p < 32768 \<and> pixelsHeight p < 32768 \<longrightarrow>
            (\<exists>w h. acquiredSize (getOptimalTexture fw fh res aa useHdr ign p) = Some (w, h) \<and>
               scaled fw res \<le> w \<and> w \<le> pixelsWidth p \<and> scaled fh res \<le> h \<and> h \<le> pixelsHeight p \<and>
               acquiredKey (getOptimalTexture fw fh res aa useHdr ign p)
                 = Some (- (w * 65536 + h * 4 + (if aa then 1 else 0) + (if useHdr then 2 else 0))) \<and>
               0 < w * 65536 + h * 4 + (if aa then 1 else 0) + (if useHdr then 2 else 0))) \<and>
         ((ign \<or> pixelsWidth p < scaled fw res \<or> pixelsHeight p < scaled fh res) \<and>
          scaled fw res \<le> 16384 \<and> scaled fh res \<le> 16384 \<longrightarrow>
            acquiredSize (getOptimalTexture fw fh res aa useHdr ign p)
              = Some (nextPow2 (scaled fw res), nextPow2 (scaled fh res)) \<and>
            scaled fw res \<le> nextPow2 (scaled fw res) \<and> scaled fh res \<le> nextPow2 (scaled fh res) \<and>
            acquiredKey (getOptimalTexture fw fh res aa useHdr ign p)
              = Some (nextPow2 (scaled fw res) * 65536 + nextPow2 (scaled fh res) * 4
                      + (if aa then 1 else 0) + (if useHdr then 2 else 0)) \<and>
            0 < nextPow2 (scaled fw res) * 65536 + nextPow2 (scaled fh res) * 4
                      + (if aa then 1 else 0) + (if useHdr then 2 else 0))"
proof (intro conjI impI)
  let ?w = "scaled fw res" and ?h = "scaled fh res"
  assume a: "(ign \<or> pixelsWidth p < ?w \<or> pixelsHeight p < ?h) \<and> ?w \<le> 16384 \<and> ?h \<le> 16384"
  then have os: "optimalSize ?w ?h ign p = Some (nextPow2 ?w, nextPow2 ?h, 1)"
    by (auto simp: optimalSize_def)
  from a have "?w \<le> 2 ^ 14" "?h \<le> 2 ^ 14" by simp_all
  then have up: "nextPow2 ?w \<le> 16384" "nextPow2 ?h \<le> 16384"
    using nextPow2_upper[of ?w 14] nextPow2_upper[of ?h 14] by simp_all
  note lo = nextPow2_lower[of ?w] nextPow2_lower[of ?h]
  have sh: "shl32 (nextPow2 ?w) 16 = nextPow2 ?w * 65536" "shl32 (nextPow2 ?h) 2 = nextPow2 ?h * 4"
    using shl32_small[of "nextPow2 ?w"] shl32_small[of "nextPow2 ?h"] up lo by linarith+
  have key: "poolKey 1 (nextPow2 ?w) (nextPow2 ?h) aa useHdr =
      nextPow2 ?w * 65536 + nextPow2 ?h * 4 + (if aa then 1 else 0) + (if useHdr then 2 else 0)"
    by (simp add: poolKey_def sh)
  show "acquiredSize (getOptimalTexture fw fh res aa useHdr ign p) = Some (nextPow2 ?w, nextPow2 ?h)"
    by (rule getOptimalTexture_acquired(2)[OF os])
  show "acquiredKey (getOptimalTexture fw fh res aa useHdr ign p)
      = Some (nextPow2 ?w * 65536 + nextPow2 ?h * 4 + (if aa then 1 else 0) + (if useHdr then 2 else 0))"
    using getOptimalTexture_acquired(1)[OF os, of aa useHdr] key by simp
  show "?w \<le> nextPow2 ?w" "?h \<le> nextPow2 ?h" using lo by simp_all
  show "0 < nextPow2 ?w * 65536 + nextPow2 ?h * 4 + (if aa then 1 else 0) + (if useHdr then 2 else 0)"
    using lo by (cases aa; cases useHdr; simp)
next
  let ?w = "scaled fw res" and ?h = "scaled fh res"
  assume scr: "\<not> ign \<and> ?w \<le> pixelsWidth p \<and> ?h \<le> pixelsHeight p \<and>
      pixelsWidth p < 32768 \<and> pixelsHeight p < 32768"
  from assms(2,3,4) have big: "3 < ?w" "3 < ?h" by linarith+
  from shrinkScreen_total[OF big(1), of "pixelsWidth p"] scr
  obtain sw where sw: "shrinkScreen (roundDouble (7 / 5)) ?w (pixelsWidth p) = Some sw"
    "sw \<le> pixelsWidth p" "?w \<le> sw"
    by blast
  from shrinkScreen_total[OF big(2), of "pixelsHeight p"] scr
  obtain sh where sh: "shrinkScreen (roundDouble (7 / 5)) ?h (pixelsHeight p) = Some sh"
    "sh \<le> pixelsHeight p" "?h \<le> sh"
    by blast
  have os: "optimalSize ?w ?h ign p = Some (sw, sh, - 1)"
    using scr assms(3,4) sw(1) sh(1) by (simp add: optimalSize_def assms(1))
  have sl: "shl32 sw 16 = sw * 65536" "shl32 sh 2 = sh * 4"
    using shl32_small[of sw] shl32_small[of sh] sw sh big scr by linarith+
  have key: "poolKey (- 1) sw sh aa useHdr =
      - (sw * 65536 + sh * 4 + (if aa then 1 else 0) + (if useHdr then 2 else 0))"
    by (simp add: poolKey_def sl)
  have pos: "0 < sw * 65536 + sh * 4 + (if aa then 1 else 0) + (if useHdr then 2 else 0)"
    using sw(3) sh(3) big by (cases aa; cases useHdr; simp)
  show "\<exists>w h. acquiredSize (getOptimalTexture fw fh res aa useHdr ign p) = Some (w, h) \<and>
               ?w \<le> w \<and> w \<le> pixelsWidth p \<and> ?h \<le> h \<and> h \<le> pixelsHeight p \<and>
               acquiredKey (getOptimalTexture fw fh res aa useHdr ign p)
                 = Some (- (w * 65536 + h * 4 + (if aa then 1 else 0) + (if useHdr then 2 else 0))) \<and>
               0 < w * 65536 + h * 4 + (if aa then 1 else 0) + (if useHdr then 2 else 0)"
    using getOptimalTexture_acquired[OF os, of aa useHdr] key pos sw sh by auto
qed

text \<open>
  Instances: 600 by 600 on a surface of 1000 by 1000 is given 715 by 715, and 1024 by 1024
  with \<open>ignoreScreen\<close>; 10000 by 10000 on a surface of 20000 by 20000 is given 10205 by
  10205; 1001 by 1001 on a surface of 1400 by 1400 is given 1001 by 1001, because the
  double quotient of 1400 by \<open>1.4\<close> lies above 1000.
\<close>

lemma surface_examples:
  "pixelsWidth (setScreenSize 1000 1000 TexturePool_new) = 1000"
  "pixelsHeight (setScreenSize 1000 1000 TexturePool_new) = 1000"
  "pixelsWidth (setScreenSize 20000 20000 TexturePool_new) = 20000"
  "pixelsHeight (setScreenSize 20000 20000 TexturePool_new) = 20000"
  "pixelsWidth (setScreenSize 1400 1400 TexturePool_new) = 1400"
  "pixelsHeight (setScreenSize 1400 1400 TexturePool_new) = 1400"
  by (simp_all add: setScreenSize_def TexturePool_new_def double_eval)

lemma setScreenSize_options:
  "screenThreshold (setScreenSize w h TexturePool_new) = 512"
  "screenSizeFactor (setScreenSize w h TexturePool_new) = roundDouble (7 / 5)"
  by (simp_all add: setScreenSize_def TexturePool_new_def Let_def)

lemma shrink_examples:
  "shrinkScreen (roundDouble (7 / 5)) 600 1000 = Some 715"
  "shrinkScreen (roundDouble (7 / 5)) 10000 20000 = Some 10205"
  "shrinkScreen (roundDouble (7 / 5)) 1001 1400 = Some 1001"
  by (simp_all add: shrinkScreen.simps literal_1_4 double_eval)

theorem large_request_bucket_witness:
  "acquiredSize (getOptimalTexture 600 600 1 False False False (setScreenSize 1000 1000 TexturePool_new))
     = Some (715, 715) \<and>
   acquiredKey (getOptimalTexture 600 600 1 False False False (setScreenSize 1000 1000 TexturePool_new))
     = Some (- 46861100) \<and>
   acquiredSize (getOptimalTexture 600 600 1 False False True (setScreenSize 1000 1000 TexturePool_new))
     = Some (1024, 1024) \<and>
   acquiredKey (getOptimalTexture 600 600 1 False False True (setScreenSize 1000 1000 TexturePool_new))
     = Some 67112960 \<and>
   acquiredSize (getOptimalTexture 10000 10000 1 False False False (setScreenSize 20000 20000 TexturePool_new))
     = Some (10205, 10205) \<and>
   acquiredKey (getOptimalTexture 10000 10000 1 False False False (setScreenSize 20000 20000 TexturePool_new))
     = Some (- 668835700) \<and>
   acquiredSize (getOptimalTexture 1001 1001 1 False False False (setScreenSize 1400 1400 TexturePool_new))
     = Some (1001, 1001)"
proof -
  let ?p = "setScreenSize 1000 1000 TexturePool_new"
  let ?q = "setScreenSize 20000 20000 TexturePool_new"
  let ?r = "setScreenSize 1400 1400 TexturePool_new"
  have a: "screenSizeFactor ?p = roundDouble (7 / 5)" "3 \<le> screenThreshold ?p"
    "screenThreshold ?p < scaled 600 1" "screenThreshold ?p < scaled 600 1"
    by (simp_all add: setScreenSize_options scaled_examples)
  have b: "scaled 600 1 \<le> pixelsWidth ?p" "scaled 600 1 \<le> pixelsHeight ?p"
    "pixelsWidth ?p < 32768" "pixelsHeight ?p < 32768" "scaled 600 1 \<le> 16384"
    by (simp_all add: surface_examples scaled_examples)
  have o: "optimalSize 600 600 False ?p = Some (715, 715, - 1)"
    "optimalSize 10000 10000 False ?q = Some (10205, 10205, - 1)"
    "optimalSize 1001 1001 False ?r = Some (1001, 1001, - 1)"
    by (simp_all add: optimalSize_def surface_examples setScreenSize_options shrink_examples)
  note e = getOptimalTexture_acquired[where fw = 600 and fh = 600 and res = 1, unfolded scaled_examples, OF o(1), of False False]
    getOptimalTexture_acquired[where fw = 10000 and fh = 10000 and res = 1, unfolded scaled_examples, OF o(2), of False False]
    getOptimalTexture_acquired[where fw = 1001 and fh = 1001 and res = 1, unfolded scaled_examples, OF o(3), of False False]
  have k: "poolKey (- 1) 715 715 False False = - 46861100"
    "poolKey (- 1) 10205 10205 False False = - 668835700"
    by (simp_all add: poolKey_def shl32_def)
  have n: "nextPow2 600 = 1024" by (simp add: nextPow2.simps)
  from large_request_bucket[OF a, of True False False] b
  have "acquiredSize (getOptimalTexture 600 600 1 False False True ?p) = Some (1024, 1024) \<and>
    acquiredKey (getOptimalTexture 600 600 1 False False True ?p) = Some 67112960"
    by (simp add: scaled_examples n)
  moreover from large_request_bucket[OF a, of False False False] b
  have "\<exists>w h. acquiredSize (getOptimalTexture 600 600 1 False False False ?p) = Some (w, h) \<and>
    600 \<le> w \<and> w \<le> 1000 \<and> 600 \<le> h \<and> h \<le> 1000"
    by (auto simp: scaled_examples surface_examples)
  ultimately show ?thesis using e k by simp
qed

section \<open>BindGroup: bound resources and their key\<close>

text \<open>
  A group holds resources by slot: a slot that was set holds a resource (an object, told
  apart by a number), a slot whose resource was destroyed holds \<open>null\<close> (\<open>None\<close>
  here), other slots are absent. The subscriptions to the resources' change events are
  kept by the resources; what they cause, the calls of \<open>onResourceChange\<close>, is
  modelled by that function. \<open>keys\<close> is the memo table of \<open>getGpuKey\<close>.
\<close>

record GroupProgPair =
  dirtyId :: int
  key :: string

definition GroupProgPair_new :: GroupProgPair where
  "GroupProgPair_new = \<lparr> dirtyId = - 1, key = [] \<rparr>"

record BindGroup =
  resources :: "(nat \<times> nat option) list"
  keys :: "int \<rightharpoonup> GroupProgPair"
  updateID :: int
  lastLayout :: int

definition BindGroup_empty :: BindGroup where
  "BindGroup_empty = \<lparr> resources = [], keys = Map.empty, updateID = - 1, lastLayout = - 1 \<rparr>"

definition setResource :: "nat \<Rightarrow> nat \<Rightarrow> BindGroup \<Rightarrow> BindGroup" where
  "setResource resource index b =
     (if map_of (resources b) index = Some (Some resource) then b
      else b\<lparr> resources := AList.update index (Some resource) (resources b),
              updateID := updateID b + 1,
              lastLayout := - 1 \<rparr>)"

definition BindGroup_new :: "nat list \<Rightarrow> BindGroup" where
  "BindGroup_new rs = fold (\<lambda>(index, resource). setResource resource index) (enumerate 0 rs) BindGroup_empty"

definition onResourceChange :: "nat \<Rightarrow> bool \<Rightarrow> BindGroup \<Rightarrow> BindGroup" where
  "onResourceChange resource isDestroyed b =
     b\<lparr> updateID := updateID b + 1,
        resources := (if isDestroyed
                      then map (\<lambda>(i, r). (i, if r = Some resource then None else r)) (resources b)
                      else resources b) \<rparr>"

text \<open>\<open>Number.prototype.toString\<close> on an integer, and \<open>Array.prototype.join\<close>.\<close>

function digits :: "nat \<Rightarrow> string" where
  "digits n = (if n < 10 then [''0123456789'' ! n]
               else digits (n div 10) @ [''0123456789'' ! (n mod 10)])"
  by pat_completeness auto
termination
  by (relation "measure id") auto

declare digits.simps [simp del]

definition toString :: "int \<Rightarrow> string" where
  "toString i = (if i < 0 then CHR ''-'' # digits (nat (- i)) else digits (nat i))"

fun join :: "string \<Rightarrow> string list \<Rightarrow> string" where
  "join sep [] = []"
| "join sep [x] = x"
| "join sep (x # y # ys) = x @ sep @ join sep (y # ys)"

text \<open>
  \<open>keyParts\<close> is one array of the module, shared by every group: it is passed in and
  handed back. The loop over the layout entries pushes on it the identity token of each
  bound resource, read from \<open>resourceId\<close> (the current \<open>_resourceId\<close> of every
  resource), and throws at a slot that is absent or null, leaving what it pushed.
\<close>

fun collectParts ::
  "layout_entry list \<Rightarrow> (nat \<times> nat option) list \<Rightarrow> (nat \<Rightarrow> int) \<Rightarrow> bool \<Rightarrow> string list
     \<Rightarrow> (error + bool) \<times> string list" where
  "collectParts [] res resourceId hasStorage keyParts = (Inr hasStorage, keyParts)"
| "collectParts (bgle # rest) res resourceId hasStorage keyParts =
     (case map_of res (binding bgle) of
        Some (Some r) \<Rightarrow>
          collectParts rest res resourceId
            (hasStorage \<or> storageTexture bgle \<or> buffer bgle = OtherBuffer)
            (keyParts @ [toString (resourceId r)])
      | _ \<Rightarrow> (Inl TypeError, keyParts))"

text \<open>
  \<open>getGpuKey\<close>: the memo record of the program's layout key is fetched (and created
  when missing); when its revision is the group's, its key is returned, otherwise
  \<open>computeGpuKey\<close> builds the key, stores it with the revision and empties
  \<open>keyParts\<close>. The result is the key or the exception, the group and \<open>keyParts\<close>.
\<close>

definition lookupPair :: "int \<Rightarrow> BindGroup \<Rightarrow> GroupProgPair \<times> BindGroup" where
  "lookupPair layoutKey b =
     (case keys b layoutKey of
        Some rec \<Rightarrow> (rec, b)
      | None \<Rightarrow> (GroupProgPair_new, b\<lparr> keys := (keys b)(layoutKey \<mapsto> GroupProgPair_new) \<rparr>))"

definition computeGpuKey ::
  "gpu_program \<Rightarrow> nat \<Rightarrow> (nat \<Rightarrow> int) \<Rightarrow> BindGroup \<Rightarrow> string list
     \<Rightarrow> (error + string) \<times> BindGroup \<times> string list" where
  "computeGpuKey prog groupIndex resourceId b keyParts =
     (if groupIndex < length (gpuLayout prog) then
        (case collectParts (gpuLayout prog ! groupIndex) (resources b) resourceId False keyParts of
           (Inl e, keyParts') \<Rightarrow> (Inl e, b, keyParts')
         | (Inr hasStorage, keyParts') \<Rightarrow>
             (let parts = (if hasStorage then keyParts' @ [CHR ''~'' # toString (p_layoutKey prog)]
                           else keyParts');
                  k = join ''|'' parts
              in (Inr k,
                  b\<lparr> keys := (keys b)(p_layoutKey prog \<mapsto> \<lparr> dirtyId = updateID b, key = k \<rparr>) \<rparr>,
                  [])))
      else (Inl TypeError, b, keyParts))"

definition getGpuKey ::
  "gpu_program \<Rightarrow> nat \<Rightarrow> (nat \<Rightarrow> int) \<Rightarrow> BindGroup \<Rightarrow> string list
     \<Rightarrow> (error + string) \<times> BindGroup \<times> string list" where
  "getGpuKey prog groupIndex resourceId b keyParts =
     (case lookupPair (p_layoutKey prog) b of
        (rec, b1) \<Rightarrow>
          if dirtyId rec = updateID b then (Inr (key rec), b1, keyParts)
          else computeGpuKey prog groupIndex resourceId b1 keyParts)"

text \<open>A program with one group of two bindings, the second a storage buffer.\<close>

definition prog1 :: gpu_program where
  "prog1 = \<lparr> p_layoutKey = 3, gpuLayout = [[\<lparr> binding = 0, storageTexture = False, buffer = UniformBuffer \<rparr>,
        \<lparr> binding = 1, storageTexture = False, buffer = OtherBuffer \<rparr>]] \<rparr>"



text \<open>
  The calls a group receives in its life, the last one being the write of \<open>_lastLayout\<close>
  by the command encoder.
\<close>

datatype bind_group_op =
    SetResource nat nat
  | OnResourceChange nat bool
  | GetGpuKey gpu_program nat "nat \<Rightarrow> int"
  | SetLastLayout int

fun applyGroupOp :: "bind_group_op \<Rightarrow> BindGroup \<times> string list \<Rightarrow> BindGroup \<times> string list" where
  "applyGroupOp (SetResource r i) (b, kp) = (setResource r i b, kp)"
| "applyGroupOp (OnResourceChange r d) (b, kp) = (onResourceChange r d b, kp)"
| "applyGroupOp (GetGpuKey prog g rid) (b, kp) = snd (getGpuKey prog g rid b kp)"
| "applyGroupOp (SetLastLayout l) (b, kp) = (b\<lparr> lastLayout := l \<rparr>, kp)"

fun runGroup :: "bind_group_op list \<Rightarrow> BindGroup \<times> string list \<Rightarrow> BindGroup \<times> string list" where
  "runGroup [] st = st"
| "runGroup (x # xs) st = runGroup xs (applyGroupOp x st)"

text \<open>No memo record is ahead of the group's revision, which never falls below \<open>-1\<close>.\<close>

definition revised :: "BindGroup \<Rightarrow> bool" where
  "revised b \<longleftrightarrow> - 1 \<le> updateID b \<and> (\<forall>lk rec. keys b lk = Some rec \<longrightarrow> dirtyId rec \<le> updateID b)"

lemma revised_setResource: "revised b \<Longrightarrow> revised (setResource r i b)"
  by (fastforce simp: revised_def setResource_def)

lemma revised_onResourceChange: "revised b \<Longrightarrow> revised (onResourceChange r d b)"
  by (fastforce simp: revised_def onResourceChange_def)

lemma revised_new: "revised (BindGroup_new rs)"
proof -
  have "revised (fold (\<lambda>(index, resource). setResource resource index) xs b)" if "revised b" for xs b
    using that by (induction xs arbitrary: b) (auto simp: revised_setResource)
  moreover have "revised BindGroup_empty" by (simp add: revised_def BindGroup_empty_def)
  ultimately show ?thesis by (simp add: BindGroup_new_def)
qed

lemma revised_lookupPair: "revised b \<Longrightarrow> revised (snd (lookupPair lk b))"
  by (auto simp: revised_def lookupPair_def GroupProgPair_new_def split: option.splits)

lemma lookupPair_updateID [simp]: "updateID (snd (lookupPair lk b)) = updateID b"
  by (simp add: lookupPair_def split: option.splits)

lemma revised_computeGpuKey: "revised b \<Longrightarrow> revised (fst (snd (computeGpuKey prog g rid b kp)))"
  by (auto simp: revised_def computeGpuKey_def Let_def split: prod.splits sum.splits)

lemma revised_getGpuKey: "revised b \<Longrightarrow> revised (fst (snd (getGpuKey prog g rid b kp)))"
  using revised_lookupPair[of b "p_layoutKey prog"] revised_computeGpuKey[of "snd (lookupPair (p_layoutKey prog) b)"]
  by (auto simp: getGpuKey_def split: prod.splits)

lemma revised_applyGroupOp: "revised (fst st) \<Longrightarrow> revised (fst (applyGroupOp x st))"
  by (cases x; cases st)
     (simp_all add: revised_setResource revised_onResourceChange revised_getGpuKey, simp add: revised_def)

lemma revised_runGroup: "revised (fst st) \<Longrightarrow> revised (fst (runGroup xs st))"
  by (induction xs arbitrary: st) (simp_all add: revised_applyGroupOp)

lemma getGpuKey_stale:
  assumes "revised b" and "updateID b' = updateID b + 1" and "keys b' = keys b"
  shows "getGpuKey prog g rid b' kp = computeGpuKey prog g rid (snd (lookupPair (p_layoutKey prog) b')) kp"
proof -
  have "dirtyId (fst (lookupPair (p_layoutKey prog) b')) \<noteq> updateID b'"
    using assms by (fastforce simp: revised_def lookupPair_def GroupProgPair_new_def split: option.splits)
  then show ?thesis
    by (cases "lookupPair (p_layoutKey prog) b'") (auto simp: getGpuKey_def)
qed

text \<open>
  \<open>memo b lk k\<close>: the memo record of layout key \<open>lk\<close> is current and holds the key
  \<open>k\<close>.
\<close>

definition memo :: "BindGroup \<Rightarrow> int \<Rightarrow> string \<Rightarrow> bool" where
  "memo b lk k \<longleftrightarrow> keys b lk = Some \<lparr> dirtyId = updateID b, key = k \<rparr>"

lemma getGpuKey_memo:
  assumes "getGpuKey prog g rid b kp = (Inr k, b1, kp1)"
  shows "memo b1 (p_layoutKey prog) k"
  using assms
  by (auto simp: memo_def getGpuKey_def lookupPair_def computeGpuKey_def Let_def GroupProgPair_new_def
      split: option.splits prod.splits sum.splits if_splits)

lemma memo_hit:
  assumes "memo b (p_layoutKey prog) k"
  shows "getGpuKey prog g rid b kp = (Inr k, b, kp)"
  using assms by (simp add: memo_def getGpuKey_def lookupPair_def)

text \<open>
  What a call of \<open>getGpuKey\<close> leaves alone: the resources, the revision counter and
  the memo records of the other layout keys.
\<close>

lemma getGpuKey_frame:
  "resources (fst (snd (getGpuKey prog g rid b kp))) = resources b"
  "updateID (fst (snd (getGpuKey prog g rid b kp))) = updateID b"
  "lk \<noteq> p_layoutKey prog \<Longrightarrow> keys (fst (snd (getGpuKey prog g rid b kp))) lk = keys b lk"
  by (auto simp: getGpuKey_def lookupPair_def computeGpuKey_def Let_def
      split: option.splits prod.splits sum.splits)

lemma getGpuKey_result:
  assumes "resources b' = resources b" and "updateID b' = updateID b"
    and "keys b' (p_layoutKey prog) = keys b (p_layoutKey prog)"
  shows "fst (getGpuKey prog g rid b' kp) = fst (getGpuKey prog g rid b kp)"
  using assms
  by (auto simp: getGpuKey_def lookupPair_def computeGpuKey_def Let_def
      split: option.splits prod.splits sum.splits)

lemma applyGroupOp_updateID: "updateID b \<le> updateID (fst (applyGroupOp x (b, kp)))"
  by (cases x) (simp_all add: setResource_def onResourceChange_def getGpuKey_frame(2))

lemma runGroup_updateID: "updateID (fst st) \<le> updateID (fst (runGroup xs st))"
proof (induction xs arbitrary: st)
  case Nil
  then show ?case by simp
next
  case (Cons x xs)
  obtain b kp where st: "st = (b, kp)" by (cases st)
  have "updateID b \<le> updateID (fst (applyGroupOp x (b, kp)))" by (rule applyGroupOp_updateID)
  also have "\<dots> \<le> updateID (fst (runGroup xs (applyGroupOp x (b, kp))))" by (rule Cons.IH)
  finally show ?case by (simp add: st)
qed

lemma applyGroupOp_memo:
  assumes "memo b lk k" and "updateID (fst (applyGroupOp x (b, kp))) = updateID b"
  shows "memo (fst (applyGroupOp x (b, kp))) lk k"
proof (cases x)
  case (SetResource r i)
  with assms show ?thesis by (auto simp: setResource_def split: if_splits)
next
  case (OnResourceChange r d)
  with assms show ?thesis by (simp add: onResourceChange_def)
next
  case (GetGpuKey prog g rid)
  show ?thesis
  proof (cases "lk = p_layoutKey prog")
    case True
    with assms(1) GetGpuKey show ?thesis by (simp add: memo_hit)
  next
    case False
    with assms(1) GetGpuKey show ?thesis by (simp add: memo_def getGpuKey_frame)
  qed
next
  case (SetLastLayout l)
  with assms show ?thesis by (simp add: memo_def)
qed

lemma runGroup_memo:
  assumes "memo (fst st) lk k" and "updateID (fst (runGroup xs st)) = updateID (fst st)"
  shows "memo (fst (runGroup xs st)) lk k"
  using assms
proof (induction xs arbitrary: st)
  case Nil
  then show ?case by simp
next
  case (Cons x xs)
  obtain b kp where st: "st = (b, kp)" by (cases st)
  let ?st1 = "applyGroupOp x (b, kp)"
  have "updateID b \<le> updateID (fst ?st1)" by (rule applyGroupOp_updateID)
  moreover have "updateID (fst ?st1) \<le> updateID (fst (runGroup xs ?st1))" by (rule runGroup_updateID)
  moreover have "updateID (fst (runGroup xs ?st1)) = updateID b" using Cons.prems(2) by (simp add: st)
  ultimately have u: "updateID (fst ?st1) = updateID b" "updateID (fst (runGroup xs ?st1)) = updateID (fst ?st1)"
    by simp_all
  have "memo (fst ?st1) lk k" using Cons.prems(1) u(1) by (simp add: st applyGroupOp_memo)
  from Cons.IH[OF this u(2)] show ?case by (simp add: st)
qed

text \<open>
  C6. \<open>getGpuKey\<close> is memoized per program layout key. Take a group as constructed
  from any resources and after any calls, and let \<open>getGpuKey\<close> return a key for a
  program. First, after any further calls that leave the revision counter where it was
  (calls of \<open>getGpuKey\<close> for any programs, \<open>setResource\<close> with the resource a slot
  already holds, writes of \<open>_lastLayout\<close>), a call for any program of the same layout
  key returns that key and changes nothing, whatever that program's layout, the
  resources' identity tokens and \<open>keyParts\<close> are: nothing is recomputed. Second, the
  answer to a program of another layout key is what it was before the first call: each
  layout key has a memo record of its own. Third, after \<open>setResource\<close> with a resource
  other than the slot's, and after \<open>onResourceChange\<close>, the revision counter is one
  higher and \<open>getGpuKey\<close> for any program is the computation of the key.
\<close>

theorem getGpuKey_memoized:
  "case runGroup ops (BindGroup_new rs, []) of
     (b, kp) \<Rightarrow>
       (\<forall>k b1 kp1 further prog' g' rid'.
           getGpuKey prog g rid b kp = (Inr k, b1, kp1) \<and>
           updateID (fst (runGroup further (b1, kp1))) = updateID b1 \<and>
           p_layoutKey prog' = p_layoutKey prog \<longrightarrow>
           getGpuKey prog' g' rid' (fst (runGroup further (b1, kp1))) (snd (runGroup further (b1, kp1)))
             = (Inr k, runGroup further (b1, kp1))) \<and>
       (\<forall>prog' g' rid' kp'.
           p_layoutKey prog' \<noteq> p_layoutKey prog \<longrightarrow>
           fst (getGpuKey prog' g' rid' (fst (snd (getGpuKey prog g rid b kp))) kp')
             = fst (getGpuKey prog' g' rid' b kp')) \<and>
       (map_of (resources b) i \<noteq> Some (Some r) \<longrightarrow>
           updateID (setResource r i b) = updateID b + 1 \<and>
           getGpuKey prog g rid (setResource r i b) kp =
             computeGpuKey prog g rid (snd (lookupPair (p_layoutKey prog) (setResource r i b))) kp) \<and>
       updateID (onResourceChange r d b) = updateID b + 1 \<and>
       getGpuKey prog g rid (onResourceChange r d b) kp =
         computeGpuKey prog g rid (snd (lookupPair (p_layoutKey prog) (onResourceChange r d b))) kp"
proof -
  obtain b kp where st: "runGroup ops (BindGroup_new rs, []) = (b, kp)"
    by (cases "runGroup ops (BindGroup_new rs, [])")
  have rev: "revised b"
    using revised_runGroup[of "(BindGroup_new rs, [])" ops] st by (simp add: revised_new)
  have a: "getGpuKey prog' g' rid' (fst (runGroup further (b1, kp1))) (snd (runGroup further (b1, kp1)))
             = (Inr k, runGroup further (b1, kp1))"
    if "getGpuKey prog g rid b kp = (Inr k, b1, kp1)"
      and "updateID (fst (runGroup further (b1, kp1))) = updateID b1"
      and "p_layoutKey prog' = p_layoutKey prog" for k b1 kp1 further prog' g' rid'
  proof -
    from that(1) have "memo b1 (p_layoutKey prog) k" by (rule getGpuKey_memo)
    then have "memo (fst (runGroup further (b1, kp1))) (p_layoutKey prog') k"
      using runGroup_memo[of "(b1, kp1)" "p_layoutKey prog" k further] that(2,3) by simp
    then show ?thesis using memo_hit by simp
  qed
  have n: "fst (getGpuKey prog' g' rid' (fst (snd (getGpuKey prog g rid b kp))) kp')
             = fst (getGpuKey prog' g' rid' b kp')"
    if "p_layoutKey prog' \<noteq> p_layoutKey prog" for prog' g' rid' kp'
    using that by (intro getGpuKey_result) (simp_all add: getGpuKey_frame)
  have s: "getGpuKey prog g rid (setResource r i b) kp =
             computeGpuKey prog g rid (snd (lookupPair (p_layoutKey prog) (setResource r i b))) kp"
    and su: "updateID (setResource r i b) = updateID b + 1"
    if "map_of (resources b) i \<noteq> Some (Some r)"
    using that by (auto intro!: getGpuKey_stale[OF rev] simp: setResource_def)
  have c: "getGpuKey prog g rid (onResourceChange r d b) kp =
         computeGpuKey prog g rid (snd (lookupPair (p_layoutKey prog) (onResourceChange r d b))) kp"
    and cu: "updateID (onResourceChange r d b) = updateID b + 1"
    by (auto intro!: getGpuKey_stale[OF rev] simp: onResourceChange_def)
  from a n s su c cu show ?thesis unfolding st by (simp only: prod.case) blast
qed

text \<open>
  A program of the layout key of \<open>prog1\<close> with another layout, and a program of
  another layout key.
\<close>

definition prog1b :: gpu_program where
  "prog1b = \<lparr> p_layoutKey = 3, gpuLayout = [[\<lparr> binding = 1, storageTexture = False, buffer = UniformBuffer \<rparr>]] \<rparr>"

definition prog2 :: gpu_program where
  "prog2 = prog1\<lparr> p_layoutKey := 4 \<rparr>"

lemmas group_eval = getGpuKey_def lookupPair_def computeGpuKey_def BindGroup_new_def BindGroup_empty_def
      setResource_def onResourceChange_def prog1_def prog1b_def prog2_def toString_def digits.simps
      GroupProgPair_new_def Let_def enumerate_eq_zip upt_rec

text \<open>
  A group of the resources 7 and 8 whose identity tokens are ten times their number,
  later a hundred times. The key for \<open>prog1\<close> is computed; \<open>prog2\<close> is then given a
  key of its own; \<open>prog1b\<close> is given the key memoized for its layout key, which its own
  layout and the new tokens would not give; after a change notification the key is
  computed from the new tokens.
\<close>

theorem getGpuKey_memoized_witness:
  "fst (getGpuKey prog1 0 (\<lambda>r. int r * 10) (BindGroup_new [7, 8]) []) = Inr ''70|80|~3'' \<and>
   fst (getGpuKey prog2 0 (\<lambda>r. int r * 10)
          (fst (snd (getGpuKey prog1 0 (\<lambda>r. int r * 10) (BindGroup_new [7, 8]) []))) [])
     = Inr ''70|80|~4'' \<and>
   fst (getGpuKey prog1b 0 (\<lambda>r. int r * 100)
          (fst (runGroup [GetGpuKey prog2 0 (\<lambda>r. int r * 10), SetResource 7 0, SetLastLayout 4]
             (snd (getGpuKey prog1 0 (\<lambda>r. int r * 10) (BindGroup_new [7, 8]) []))))
          [])
     = Inr ''70|80|~3'' \<and>
   fst (getGpuKey prog1 0 (\<lambda>r. int r * 100)
          (onResourceChange 7 False
             (fst (snd (getGpuKey prog1 0 (\<lambda>r. int r * 10) (BindGroup_new [7, 8]) [])))) [])
     = Inr ''700|800|~3''"
proof -
  let ?b0 = "BindGroup_new [7, 8]"
  let ?r1 = "getGpuKey prog1 0 (\<lambda>r. int r * 10) ?b0 []"
  let ?further = "[GetGpuKey prog2 0 (\<lambda>r. int r * 10), SetResource 7 0, SetLastLayout 4]"
  have e1: "fst ?r1 = Inr ''70|80|~3''" by (simp add: group_eval)
  have kp: "snd (snd ?r1) = []" by (simp add: group_eval)
  have r1: "?r1 = (Inr ''70|80|~3'', fst (snd ?r1), [])"
    using e1 kp by (metis prod.collapse)
  have e2: "fst (getGpuKey prog2 0 (\<lambda>r. int r * 10) ?b0 []) = Inr ''70|80|~4''"
    by (simp add: group_eval)
  have e3: "fst (computeGpuKey prog1 0 (\<lambda>r. int r * 100)
      (snd (lookupPair (p_layoutKey prog1) (onResourceChange 7 False (fst (snd ?r1))))) []) = Inr ''700|800|~3''"
    by (simp add: group_eval)
  have u: "updateID (fst (runGroup ?further (fst (snd ?r1), []))) = updateID (fst (snd ?r1))"
    by (simp add: group_eval)
  have l: "p_layoutKey prog1b = p_layoutKey prog1" "p_layoutKey prog2 \<noteq> p_layoutKey prog1"
    by (simp_all add: prog1_def prog1b_def prog2_def)
  have sk: "snd (runGroup ?further (fst (snd ?r1), [])) = []"
    by (simp add: group_eval)
  note inst = getGpuKey_memoized [where ops = "[]" and rs = "[7, 8]" and prog = prog1 and g = 0
      and rid = "\<lambda>r. int r * 10", unfolded runGroup.simps prod.case]
  note first = inst [THEN conjunct1, rule_format, where further = "?further" and prog' = prog1b and g' = 0
      and rid' = "\<lambda>r. int r * 100", OF conjI [OF r1 conjI [OF u l(1)]]]
  have p: "(fst (snd ?r1), []) = snd ?r1" using kp by (metis prod.collapse)
  have "fst (getGpuKey prog1b 0 (\<lambda>r. int r * 100) (fst (runGroup ?further (snd ?r1))) [])
      = Inr ''70|80|~3''"
    using first sk unfolding p by simp
  moreover
  note other = inst [THEN conjunct2, THEN conjunct1, rule_format, where prog' = prog2 and g' = 0
      and rid' = "\<lambda>r. int r * 10" and kp' = "[]", OF l(2)]
  have "fst (getGpuKey prog2 0 (\<lambda>r. int r * 10) (fst (snd ?r1)) []) = Inr ''70|80|~4''"
    using other e2 by simp
  moreover
  have st: "runGroup [GetGpuKey prog1 0 (\<lambda>r. int r * 10)] (?b0, []) = (fst (snd ?r1), [])"
    unfolding runGroup.simps applyGroupOp.simps using kp by (metis prod.collapse)
  note second = getGpuKey_memoized [where ops = "[GetGpuKey prog1 0 (\<lambda>r. int r * 10)]" and rs = "[7, 8]"
      and prog = prog1 and g = 0 and rid = "\<lambda>r. int r * 100" and r = 7 and d = False,
      unfolded st prod.case, THEN conjunct2, THEN conjunct2, THEN conjunct2]
  have "getGpuKey prog1 0 (\<lambda>r. int r * 100) (onResourceChange 7 False (fst (snd ?r1))) [] =
     computeGpuKey prog1 0 (\<lambda>r. int r * 100)
      (snd (lookupPair (p_layoutKey prog1) (onResourceChange 7 False (fst (snd ?r1))))) []"
    using second by simp
  ultimately show ?thesis using e1 e3 kp
    by (simp only: fst_conv snd_conv prod.collapse) 
qed


section \<open>GpuEncoderSystem: the command encoder\<close>

text \<open>
  A pass encoder is the list of device calls it has received; \<open>None\<close> is \<open>null\<close>, and
  a call on it throws. The command encoder itself is taken as created by
  \<open>renderStart\<close>. What the other systems hand back is logged by its arguments:
  \<open>updateBuffer(buffer)\<close> by the buffer, \<open>getBindGroup(bindGroup, program, index)\<close> by the
  index, the group and the program's layout key. Bind groups are objects whose
  \<open>_lastLayout\<close> the encoder writes, so the encoder's state holds every group by its
  number and the tables hold numbers.
\<close>

datatype index_format = Uint16 | Uint32

datatype gpu_call =
    SetPipeline nat
  | SetVertexBuffer nat "gpu_buffer jsref"
  | SetIndexBuffer gpu_buffer index_format
  | SetBindGroup nat nat int
  | Draw int int int int
  | DrawIndexed int int int int int

record shader =
  gpuProgram :: gpu_program
  groups :: "(nat \<times> nat) list"

text \<open>
  A submission, with what \<open>PipelineSystem\<close> resolves for it: \<open>o_pipeline\<close> is the
  pipeline object \<open>getPipeline\<close> returns for the geometry, program, state and topology,
  and \<open>o_buffersToBind\<close> the list \<open>getBufferNamesToBind\<close> returns. \<open>groups\<close> lists
  the shader's groups by index, in the order of the \<open>for in\<close> loop.
\<close>

record draw_options =
  o_geometry :: geometry
  o_shader :: shader
  o_pipeline :: nat
  o_buffersToBind :: "nat list"
  o_size :: "int option"
  o_start :: "int option"
  o_instanceCount :: "int option"
  o_baseInstance :: "int option"
  o_skipSync :: bool

record encoder =
  renderPassEncoder :: "gpu_call list option"
  computePassEncoder :: "gpu_call list option"
  boundBindGroup :: "nat \<Rightarrow> nat jsref"
  boundVertexBuffer :: "nat \<Rightarrow> gpu_buffer jsref"
  boundIndexBuffer :: "gpu_buffer jsref"
  boundPipeline :: "nat jsref"
  boundCompute :: int
  bindGroups :: "nat \<Rightarrow> BindGroup"
  endedPasses :: "gpu_call list list"

definition GpuEncoderSystem_new :: "(nat \<Rightarrow> BindGroup) \<Rightarrow> encoder" where
  "GpuEncoderSystem_new gs =
     \<lparr> renderPassEncoder = None, computePassEncoder = None,
       boundBindGroup = (\<lambda>_. Undefined), boundVertexBuffer = (\<lambda>_. Undefined),
       boundIndexBuffer = Undefined, boundPipeline = Undefined, boundCompute = - 1,
       bindGroups = gs, endedPasses = [] \<rparr>"

definition clearCache :: "encoder \<Rightarrow> encoder" where
  "clearCache s =
     s\<lparr> boundBindGroup := (\<lambda>i. if i < 16 then Null else boundBindGroup s i),
        boundVertexBuffer := (\<lambda>i. if i < 16 then Null else boundVertexBuffer s i),
        boundIndexBuffer := Null, boundPipeline := Null, boundCompute := - 1 \<rparr>"

definition endCurrentPass :: "encoder \<Rightarrow> encoder" where
  "endCurrentPass s =
     s\<lparr> endedPasses := endedPasses s
          @ (case renderPassEncoder s of None \<Rightarrow> [] | Some calls \<Rightarrow> [calls])
          @ (case computePassEncoder s of None \<Rightarrow> [] | Some calls \<Rightarrow> [calls]),
        renderPassEncoder := None, computePassEncoder := None \<rparr>"

definition beginRenderPass :: "encoder \<Rightarrow> encoder" where
  "beginRenderPass s = (clearCache (endCurrentPass s))\<lparr> renderPassEncoder := Some [] \<rparr>"

definition onRenderPass :: "gpu_call \<Rightarrow> encoder \<Rightarrow> error + encoder" where
  "onRenderPass c s =
     (case renderPassEncoder s of
        None \<Rightarrow> Inl TypeError
      | Some calls \<Rightarrow> Inr (s\<lparr> renderPassEncoder := Some (calls @ [c]) \<rparr>))"

definition onEitherPass :: "gpu_call \<Rightarrow> encoder \<Rightarrow> error + encoder" where
  "onEitherPass c s =
     (case renderPassEncoder s of
        Some calls \<Rightarrow> Inr (s\<lparr> renderPassEncoder := Some (calls @ [c]) \<rparr>)
      | None \<Rightarrow>
          (case computePassEncoder s of
             Some calls \<Rightarrow> Inr (s\<lparr> computePassEncoder := Some (calls @ [c]) \<rparr>)
           | None \<Rightarrow> Inl TypeError))"

definition setPipeline :: "nat \<Rightarrow> encoder \<Rightarrow> error + encoder" where
  "setPipeline pl s =
     (if boundPipeline s = Ref pl then Inr s
      else onRenderPass (SetPipeline pl) (s\<lparr> boundPipeline := Ref pl \<rparr>))"

definition setVertexBuffer :: "nat \<Rightarrow> gpu_buffer jsref \<Rightarrow> encoder \<Rightarrow> error + encoder" where
  "setVertexBuffer index buf s =
     (if boundVertexBuffer s index = buf then Inr s
      else onRenderPass (SetVertexBuffer index buf)
             (s\<lparr> boundVertexBuffer := (boundVertexBuffer s)(index := buf) \<rparr>))"

definition setIndexBuffer :: "gpu_buffer \<Rightarrow> encoder \<Rightarrow> error + encoder" where
  "setIndexBuffer buf s =
     (if boundIndexBuffer s = Ref buf then Inr s
      else onRenderPass (SetIndexBuffer buf (if bytesPerElement buf = 2 then Uint16 else Uint32))
             (s\<lparr> boundIndexBuffer := Ref buf \<rparr>))"

text \<open>
  \<open>_touch\<close> and \<open>_syncBindGroup\<close> walk the slots of a group and throw at a null one.
  The upload of uniform groups that \<open>_syncBindGroup\<close> starts writes buffer contents
  only.
\<close>

definition hasNullSlot :: "BindGroup \<Rightarrow> bool" where
  "hasNullSlot b = list_ex (\<lambda>(i, r). r = None) (resources b)"

definition setBindGroup :: "nat \<Rightarrow> nat \<Rightarrow> gpu_program \<Rightarrow> encoder \<Rightarrow> error + encoder" where
  "setBindGroup index bg program s =
     (if boundBindGroup s index = Ref bg \<and> lastLayout (bindGroups s bg) = p_layoutKey program
      then Inr s
      else if hasNullSlot (bindGroups s bg) then Inl TypeError
      else onEitherPass (SetBindGroup index bg (p_layoutKey program))
             (s\<lparr> boundBindGroup := (boundBindGroup s)(index := Ref bg),
                 bindGroups := (bindGroups s)(bg := (bindGroups s bg)\<lparr> lastLayout := p_layoutKey program \<rparr>) \<rparr>))"

text \<open>\<open>xs[i]\<close>: \<open>undefined\<close> outside the array.\<close>

definition element :: "'a list \<Rightarrow> nat \<Rightarrow> 'a jsref" where
  "element xs i = (if i < length xs then Ref (xs ! i) else Undefined)"

fun setVertexBuffers :: "nat \<Rightarrow> nat list \<Rightarrow> gpu_buffer list \<Rightarrow> encoder \<Rightarrow> error + encoder" where
  "setVertexBuffers i [] bufs s = Inr s"
| "setVertexBuffers i (b # bs) bufs s =
     (case setVertexBuffer i (element bufs b) s of
        Inl e \<Rightarrow> Inl e
      | Inr s' \<Rightarrow> setVertexBuffers (Suc i) bs bufs s')"

definition setGeometry :: "geometry \<Rightarrow> nat list \<Rightarrow> encoder \<Rightarrow> error + encoder" where
  "setGeometry g buffersToBind s =
     (case setVertexBuffers 0 buffersToBind (buffers g) s of
        Inl e \<Rightarrow> Inl e
      | Inr s' \<Rightarrow> (case indexBuffer g of None \<Rightarrow> Inr s' | Some ib \<Rightarrow> setIndexBuffer ib s'))"

fun setShaderBindGroups ::
  "(nat \<times> nat) list \<Rightarrow> gpu_program \<Rightarrow> bool \<Rightarrow> encoder \<Rightarrow> error + encoder" where
  "setShaderBindGroups [] program skipSync s = Inr s"
| "setShaderBindGroups ((i, bg) # rest) program skipSync s =
     (if \<not> skipSync \<and> hasNullSlot (bindGroups s bg) then Inl TypeError
      else case setBindGroup i bg program s of
             Inl e \<Rightarrow> Inl e
           | Inr s' \<Rightarrow> setShaderBindGroups rest program skipSync s')"

text \<open>\<open>x || d\<close> on an optional number: the default also replaces 0.\<close>

definition orElse :: "int option \<Rightarrow> int \<Rightarrow> int" where
  "orElse x d = (case x of None \<Rightarrow> d | Some v \<Rightarrow> if v = 0 then d else v)"

definition drawCall :: "draw_options \<Rightarrow> gpu_call" where
  "drawCall opts =
     (let g = o_geometry opts;
          sz = orElse (o_size opts) (drawSize g)
      in case indexBuffer g of
           Some ib \<Rightarrow> DrawIndexed sz (orElse (o_instanceCount opts) (instanceCount g))
                        (orElse (o_start opts) 0) 0 (orElse (o_baseInstance opts) 0)
         | None \<Rightarrow> Draw sz (orElse (o_instanceCount opts) (instanceCount g))
                     (orElse (o_start opts) 0) (orElse (o_baseInstance opts) 0))"

definition draw :: "draw_options \<Rightarrow> encoder \<Rightarrow> error + encoder" where
  "draw opts s =
     (case setPipeline (o_pipeline opts) s of
        Inl e \<Rightarrow> Inl e
      | Inr s1 \<Rightarrow>
          (case setGeometry (o_geometry opts) (o_buffersToBind opts) s1 of
             Inl e \<Rightarrow> Inl e
           | Inr s2 \<Rightarrow>
               (case setShaderBindGroups (groups (o_shader opts)) (gpuProgram (o_shader opts))
                       (o_skipSync opts) s2 of
                  Inl e \<Rightarrow> Inl e
                | Inr s3 \<Rightarrow> onRenderPass (drawCall opts) s3)))"


lemma onRenderPass_tables:
  assumes "onRenderPass c s = Inr s'"
  shows "boundPipeline s' = boundPipeline s" "boundVertexBuffer s' = boundVertexBuffer s"
    "boundIndexBuffer s' = boundIndexBuffer s" "boundBindGroup s' = boundBindGroup s"
    "bindGroups s' = bindGroups s" "renderPassEncoder s' \<noteq> None"
  using assms by (auto simp: onRenderPass_def split: option.splits)

lemma onEitherPass_tables:
  assumes "onEitherPass c s = Inr s'"
  shows "boundPipeline s' = boundPipeline s" "boundVertexBuffer s' = boundVertexBuffer s"
    "boundIndexBuffer s' = boundIndexBuffer s" "boundBindGroup s' = boundBindGroup s"
    "bindGroups s' = bindGroups s"
  using assms by (auto simp: onEitherPass_def split: option.splits)

lemma setPipeline_after:
  assumes "setPipeline pl s = Inr s'"
  shows "boundPipeline s' = Ref pl"
  using assms onRenderPass_tables(1)[of "SetPipeline pl" "s\<lparr> boundPipeline := Ref pl \<rparr>" s']
  by (auto simp: setPipeline_def split: if_splits)

lemma setVertexBuffer_after:
  assumes "setVertexBuffer i buf s = Inr s'"
  shows "boundVertexBuffer s' = (boundVertexBuffer s)(i := buf)" "boundPipeline s' = boundPipeline s"
  using assms
    onRenderPass_tables(1,2)[of "SetVertexBuffer i buf" "s\<lparr> boundVertexBuffer := (boundVertexBuffer s)(i := buf) \<rparr>" s']
  by (auto simp: setVertexBuffer_def split: if_splits)

lemma setVertexBuffers_after:
  assumes "setVertexBuffers i bs bufs s = Inr s'"
  shows "(\<forall>k < length bs. boundVertexBuffer s' (i + k) = element bufs (bs ! k)) \<and>
         (\<forall>j < i. boundVertexBuffer s' j = boundVertexBuffer s j) \<and>
         boundPipeline s' = boundPipeline s"
  using assms
proof (induction bs arbitrary: i s)
  case Nil
  then show ?case by simp
next
  case (Cons b bs)
  from Cons.prems obtain s1 where s1: "setVertexBuffer i (element bufs b) s = Inr s1"
    and rest: "setVertexBuffers (Suc i) bs bufs s1 = Inr s'"
    by (auto split: sum.splits)
  note ih = Cons.IH[OF rest]
  note one = setVertexBuffer_after[OF s1]
  have "boundVertexBuffer s' (i + k) = element bufs ((b # bs) ! k)" if "k < length (b # bs)" for k
  proof (cases k)
    case 0
    with ih one show ?thesis by simp
  next
    case (Suc k')
    with that ih show ?thesis by simp
  qed
  moreover have "boundVertexBuffer s' j = boundVertexBuffer s j" if "j < i" for j
    using that ih one by simp
  ultimately show ?case using ih one by simp
qed

lemma setVertexBuffers_bound:
  assumes "\<forall>k < length bs. boundVertexBuffer s (i + k) = element bufs (bs ! k)"
  shows "setVertexBuffers i bs bufs s = Inr s"
  using assms
proof (induction bs arbitrary: i)
  case Nil
  then show ?case by simp
next
  case (Cons b bs)
  from Cons.prems have "boundVertexBuffer s i = element bufs b" by force
  then have "setVertexBuffer i (element bufs b) s = Inr s" by (simp add: setVertexBuffer_def)
  moreover have "setVertexBuffers (Suc i) bs bufs s = Inr s"
  proof (rule Cons.IH, intro allI impI)
    fix k assume "k < length bs"
    with Cons.prems have "boundVertexBuffer s (i + Suc k) = element bufs ((b # bs) ! Suc k)" by force
    then show "boundVertexBuffer s (Suc i + k) = element bufs (bs ! k)" by simp
  qed
  ultimately show ?case by simp
qed

lemma setIndexBuffer_after:
  assumes "setIndexBuffer ib s = Inr s'"
  shows "boundIndexBuffer s' = Ref ib" "boundVertexBuffer s' = boundVertexBuffer s"
    "boundPipeline s' = boundPipeline s"
proof -
  have "boundIndexBuffer s' = Ref ib \<and> boundVertexBuffer s' = boundVertexBuffer s \<and>
    boundPipeline s' = boundPipeline s"
  proof (cases "boundIndexBuffer s = Ref ib")
    case True
    with assms show ?thesis by (simp add: setIndexBuffer_def)
  next
    case False
    with assms have "onRenderPass (SetIndexBuffer ib (if bytesPerElement ib = 2 then Uint16 else Uint32))
        (s\<lparr> boundIndexBuffer := Ref ib \<rparr>) = Inr s'"
      by (simp add: setIndexBuffer_def)
    from onRenderPass_tables(1,2,3)[OF this] show ?thesis by simp
  qed
  then show "boundIndexBuffer s' = Ref ib" "boundVertexBuffer s' = boundVertexBuffer s"
    "boundPipeline s' = boundPipeline s" by simp_all
qed

lemma setBindGroup_after:
  assumes "setBindGroup i bg program s = Inr s'"
  shows "boundBindGroup s' = (boundBindGroup s)(i := Ref bg)"
    "lastLayout (bindGroups s' bg) = p_layoutKey program"
    "\<forall>g. lastLayout (bindGroups s g) = p_layoutKey program \<longrightarrow> lastLayout (bindGroups s' g) = p_layoutKey program"
    "boundPipeline s' = boundPipeline s" "boundVertexBuffer s' = boundVertexBuffer s"
    "boundIndexBuffer s' = boundIndexBuffer s"
    "\<forall>g. resources (bindGroups s' g) = resources (bindGroups s g)"
proof -
  let ?s1 = "s\<lparr> boundBindGroup := (boundBindGroup s)(i := Ref bg),
                 bindGroups := (bindGroups s)(bg := (bindGroups s bg)\<lparr> lastLayout := p_layoutKey program \<rparr>) \<rparr>"
  have "boundBindGroup s' = (boundBindGroup s)(i := Ref bg) \<and>
    lastLayout (bindGroups s' bg) = p_layoutKey program \<and>
    (\<forall>g. lastLayout (bindGroups s g) = p_layoutKey program \<longrightarrow> lastLayout (bindGroups s' g) = p_layoutKey program) \<and>
    boundPipeline s' = boundPipeline s \<and> boundVertexBuffer s' = boundVertexBuffer s \<and>
    boundIndexBuffer s' = boundIndexBuffer s \<and>
    (\<forall>g. resources (bindGroups s' g) = resources (bindGroups s g))"
  proof (cases "boundBindGroup s i = Ref bg \<and> lastLayout (bindGroups s bg) = p_layoutKey program")
    case True
    with assms have "s' = s" by (simp add: setBindGroup_def)
    with True show ?thesis by auto
  next
    case False
    with assms have "onEitherPass (SetBindGroup i bg (p_layoutKey program)) ?s1 = Inr s'"
      by (simp add: setBindGroup_def split: if_splits)
    from onEitherPass_tables[OF this] show ?thesis by simp
  qed
  then show "boundBindGroup s' = (boundBindGroup s)(i := Ref bg)"
    "lastLayout (bindGroups s' bg) = p_layoutKey program"
    "\<forall>g. lastLayout (bindGroups s g) = p_layoutKey program \<longrightarrow> lastLayout (bindGroups s' g) = p_layoutKey program"
    "boundPipeline s' = boundPipeline s" "boundVertexBuffer s' = boundVertexBuffer s"
    "boundIndexBuffer s' = boundIndexBuffer s"
    "\<forall>g. resources (bindGroups s' g) = resources (bindGroups s g)"
    by blast+
qed

lemma setBindGroup_nulls:
  assumes "setBindGroup i bg program s = Inr s'"
  shows "hasNullSlot (bindGroups s' g) = hasNullSlot (bindGroups s g)"
  using setBindGroup_after(7)[OF assms] by (simp add: hasNullSlot_def)

lemma hasNullSlot_lastLayout [simp]: "hasNullSlot (b\<lparr> lastLayout := l \<rparr>) = hasNullSlot b"
  by (simp add: hasNullSlot_def)

lemma setShaderBindGroups_after:
  assumes "setShaderBindGroups gs program skip s = Inr s'" and "distinct (map fst gs)"
  shows "(\<forall>(i, bg) \<in> set gs. boundBindGroup s' i = Ref bg \<and>
             lastLayout (bindGroups s' bg) = p_layoutKey program \<and>
             (skip \<or> \<not> hasNullSlot (bindGroups s' bg))) \<and>
         (\<forall>j. j \<notin> fst ` set gs \<longrightarrow> boundBindGroup s' j = boundBindGroup s j) \<and>
         (\<forall>g. lastLayout (bindGroups s g) = p_layoutKey program \<longrightarrow>
              lastLayout (bindGroups s' g) = p_layoutKey program) \<and>
         (\<forall>g. hasNullSlot (bindGroups s' g) = hasNullSlot (bindGroups s g)) \<and>
         boundPipeline s' = boundPipeline s \<and> boundVertexBuffer s' = boundVertexBuffer s \<and>
         boundIndexBuffer s' = boundIndexBuffer s"
  using assms
proof (induction gs arbitrary: s)
  case Nil
  then show ?case by simp
next
  case (Cons x gs)
  obtain i bg where x: "x = (i, bg)" by (cases x)
  from Cons.prems(1) x obtain s1 where ok: "skip \<or> \<not> hasNullSlot (bindGroups s bg)"
    and s1: "setBindGroup i bg program s = Inr s1"
    and rest: "setShaderBindGroups gs program skip s1 = Inr s'"
    by (auto split: sum.splits if_splits)
  from Cons.prems(2) x have d: "distinct (map fst gs)" and fresh: "i \<notin> fst ` set gs" by auto
  note ih = Cons.IH[OF rest d]
  note one = setBindGroup_after[OF s1]
  note nul = setBindGroup_nulls[OF s1]
  have head: "boundBindGroup s' i = Ref bg \<and> lastLayout (bindGroups s' bg) = p_layoutKey program \<and>
      (skip \<or> \<not> hasNullSlot (bindGroups s' bg))"
    using ih one fresh ok nul by simp
  have other: "boundBindGroup s' j = boundBindGroup s j" if "j \<notin> fst ` set (x # gs)" for j
    using that ih one x by simp
  have keep: "lastLayout (bindGroups s' g) = p_layoutKey program"
    if "lastLayout (bindGroups s g) = p_layoutKey program" for g
    using that ih one(3) by blast
  have nulls: "hasNullSlot (bindGroups s' g) = hasNullSlot (bindGroups s g)" for g
    using ih nul by simp
  have tail: "\<forall>(j, g) \<in> set gs. boundBindGroup s' j = Ref g \<and>
             lastLayout (bindGroups s' g) = p_layoutKey program \<and>
             (skip \<or> \<not> hasNullSlot (bindGroups s' g))"
    using ih by blast
  have tabs: "boundPipeline s' = boundPipeline s" "boundVertexBuffer s' = boundVertexBuffer s"
    "boundIndexBuffer s' = boundIndexBuffer s"
    using ih one(4,5,6) by simp_all
  show ?case
    unfolding x using head tail other[unfolded x] keep nulls tabs by simp
qed

lemma setShaderBindGroups_bound:
  assumes "\<forall>(i, bg) \<in> set gs. boundBindGroup s i = Ref bg \<and>
             lastLayout (bindGroups s bg) = p_layoutKey program \<and>
             (skip \<or> \<not> hasNullSlot (bindGroups s bg))"
  shows "setShaderBindGroups gs program skip s = Inr s"
  using assms by (induction gs) (auto simp: setBindGroup_def)


text \<open>The calls of \<open>renderPassEncoder || computePassEncoder\<close>.\<close>

definition passCalls :: "encoder \<Rightarrow> gpu_call list option" where
  "passCalls s = (case renderPassEncoder s of Some calls \<Rightarrow> Some calls | None \<Rightarrow> computePassEncoder s)"

subsection \<open>Claims about the command encoder\<close>

text \<open>
  C4. Redundant-bind elision. After a submission that went through, a second submission
  in the same pass with the same resolved pipeline, the same buffers to bind, the same
  index buffer and the same groups under a program of the same layout key (and the same
  \<open>skipSync\<close>) adds one call to the pass, its \<open>draw\<close> or \<open>drawIndexed\<close>, and leaves
  the rest of the encoder as it was. The group indices of a shader are the keys of an
  object, hence distinct.
\<close>

theorem redundant_bind_elision:
  assumes "draw o1 s = Inr s1"
    and "o_pipeline o2 = o_pipeline o1"
    and "o_buffersToBind o2 = o_buffersToBind o1"
    and "buffers (o_geometry o2) = buffers (o_geometry o1)"
    and "indexBuffer (o_geometry o2) = indexBuffer (o_geometry o1)"
    and "groups (o_shader o2) = groups (o_shader o1)"
    and "p_layoutKey (gpuProgram (o_shader o2)) = p_layoutKey (gpuProgram (o_shader o1))"
    and "o_skipSync o2 = o_skipSync o1"
    and "distinct (map fst (groups (o_shader o1)))"
  shows "\<exists>calls. renderPassEncoder s1 = Some calls \<and>
           draw o2 s1 = Inr (s1\<lparr> renderPassEncoder := Some (calls @ [drawCall o2]) \<rparr>)"
proof -
  let ?gs = "groups (o_shader o1)" and ?prog = "gpuProgram (o_shader o1)"
  from assms(1) obtain sa sb sc where
    sa: "setPipeline (o_pipeline o1) s = Inr sa"
    and sb: "setGeometry (o_geometry o1) (o_buffersToBind o1) sa = Inr sb"
    and sc: "setShaderBindGroups ?gs ?prog (o_skipSync o1) sb = Inr sc"
    and sd: "onRenderPass (drawCall o1) sc = Inr s1"
    by (auto simp: draw_def split: sum.splits)
  from sb obtain sv where
    sv: "setVertexBuffers 0 (o_buffersToBind o1) (buffers (o_geometry o1)) sa = Inr sv"
    and si: "(case indexBuffer (o_geometry o1) of None \<Rightarrow> Inr sv | Some ib \<Rightarrow> setIndexBuffer ib sv) = Inr sb"
    by (auto simp: setGeometry_def split: sum.splits)
  note pa = setPipeline_after[OF sa]
  note va = setVertexBuffers_after[OF sv]
  note ga = setShaderBindGroups_after[OF sc assms(9)]
  note da = onRenderPass_tables[OF sd]
  have ib: "boundVertexBuffer sb = boundVertexBuffer sv \<and> boundPipeline sb = boundPipeline sv \<and>
      (\<forall>b. indexBuffer (o_geometry o1) = Some b \<longrightarrow> boundIndexBuffer sb = Ref b)"
  proof (cases "indexBuffer (o_geometry o1)")
    case None
    with si show ?thesis by simp
  next
    case (Some b)
    with si have "setIndexBuffer b sv = Inr sb" by simp
    from setIndexBuffer_after[OF this] Some show ?thesis by simp
  qed
  \<comment> \<open>what is bound after the first submission\<close>
  have p1: "boundPipeline s1 = Ref (o_pipeline o2)"
    using pa va ib ga da assms(2) by simp
  have v1: "\<forall>k < length (o_buffersToBind o2).
      boundVertexBuffer s1 (0 + k) = element (buffers (o_geometry o2)) (o_buffersToBind o2 ! k)"
    using va ib ga da assms(3,4) by simp
  have i1: "\<forall>b. indexBuffer (o_geometry o2) = Some b \<longrightarrow> boundIndexBuffer s1 = Ref b"
    using ib ga da assms(5) by simp
  have g1: "\<forall>(i, bg) \<in> set (groups (o_shader o2)). boundBindGroup s1 i = Ref bg \<and>
             lastLayout (bindGroups s1 bg) = p_layoutKey (gpuProgram (o_shader o2)) \<and>
             (o_skipSync o2 \<or> \<not> hasNullSlot (bindGroups s1 bg))"
    unfolding assms(6,7,8) da(4,5) using ga by blast
  \<comment> \<open>so the second submission sets nothing\<close>
  have "setPipeline (o_pipeline o2) s1 = Inr s1"
    using p1 by (simp add: setPipeline_def)
  moreover have "setGeometry (o_geometry o2) (o_buffersToBind o2) s1 = Inr s1"
    using setVertexBuffers_bound[OF v1] i1
    by (auto simp: setGeometry_def setIndexBuffer_def split: option.splits)
  moreover have "setShaderBindGroups (groups (o_shader o2)) (gpuProgram (o_shader o2)) (o_skipSync o2) s1 = Inr s1"
    using g1 by (rule setShaderBindGroups_bound)
  moreover obtain calls where calls: "renderPassEncoder s1 = Some calls"
    using da(6) by blast
  ultimately show ?thesis
    by (auto simp: draw_def onRenderPass_def)
qed

text \<open>
  What \<open>setBindGroup\<close> compares the program's layout key with is \<open>_lastLayout\<close>, one
  field of the group for all indices. With a pass open, binding a group that has no null
  slot under a program whose layout key is not the group's \<open>_lastLayout\<close> issues a
  \<open>setBindGroup\<close> call.
\<close>

lemma setBindGroup_other_layout:
  assumes "lastLayout (bindGroups s bg) \<noteq> p_layoutKey program"
    and "passCalls s = Some calls"
    and "\<not> hasNullSlot (bindGroups s bg)"
  shows "\<exists>s'. setBindGroup i bg program s = Inr s' \<and>
           passCalls s' = Some (calls @ [SetBindGroup i bg (p_layoutKey program)]) \<and>
           boundBindGroup s' i = Ref bg \<and>
           lastLayout (bindGroups s' bg) = p_layoutKey program"
  using assms
  by (auto simp: setBindGroup_def onEitherPass_def passCalls_def split: option.splits)

text \<open>Sequencing for the instances: the next call runs on the state the previous one returned.\<close>

definition andThen :: "error + encoder \<Rightarrow> (encoder \<Rightarrow> error + encoder) \<Rightarrow> error + encoder" where
  "andThen r f = (case r of Inl e \<Rightarrow> Inl e | Inr s \<Rightarrow> f s)"

definition callsOf :: "error + encoder \<Rightarrow> gpu_call list option" where
  "callsOf r = (case r of Inl e \<Rightarrow> None | Inr s \<Rightarrow> passCalls s)"

definition quadVertices :: gpu_buffer where
  "quadVertices = \<lparr> b_uid = 1, bytesPerElement = 4 \<rparr>"

definition quadIndices :: gpu_buffer where
  "quadIndices = \<lparr> b_uid = 2, bytesPerElement = 2 \<rparr>"

definition quadDraw :: draw_options where
  "quadDraw =
     \<lparr> o_geometry = \<lparr> g_layoutKey = 1, g_topology = TriangleList,
                      buffers = [quadVertices], indexBuffer = Some quadIndices,
                      instanceCount = 1, drawSize = 6 \<rparr>,
       o_shader = \<lparr> gpuProgram = prog1, groups = [(0, 5), (1, 6)] \<rparr>,
       o_pipeline = 0, o_buffersToBind = [0],
       o_size = None, o_start = None, o_instanceCount = None, o_baseInstance = None,
       o_skipSync = False \<rparr>"

definition freshPass :: encoder where
  "freshPass = beginRenderPass (GpuEncoderSystem_new (\<lambda>_. BindGroup_new [7, 8]))"

lemmas pass_eval = freshPass_def beginRenderPass_def clearCache_def endCurrentPass_def
  GpuEncoderSystem_new_def setBindGroup_def onEitherPass_def hasNullSlot_def prog1_def
  BindGroup_new_def BindGroup_empty_def setResource_def enumerate_eq_zip upt_rec Let_def
  callsOf_def passCalls_def andThen_def

theorem redundant_bind_elision_witness:
  "callsOf (draw quadDraw freshPass) =
     Some [SetPipeline 0, SetVertexBuffer 0 (Ref quadVertices), SetIndexBuffer quadIndices Uint16,
           SetBindGroup 0 5 3, SetBindGroup 1 6 3, DrawIndexed 6 1 0 0 0] \<and>
   callsOf (andThen (draw quadDraw freshPass) (draw (quadDraw\<lparr> o_start := Some 3 \<rparr>))) =
     Some [SetPipeline 0, SetVertexBuffer 0 (Ref quadVertices), SetIndexBuffer quadIndices Uint16,
           SetBindGroup 0 5 3, SetBindGroup 1 6 3, DrawIndexed 6 1 0 0 0, DrawIndexed 6 1 3 0 0]"
proof -
  let ?first = "[SetPipeline 0, SetVertexBuffer 0 (Ref quadVertices), SetIndexBuffer quadIndices Uint16,
           SetBindGroup 0 5 3, SetBindGroup 1 6 3, DrawIndexed 6 1 0 0 0]"
  have c: "callsOf (draw quadDraw freshPass) = Some ?first"
    by (simp add: pass_eval draw_def setPipeline_def setGeometry_def setVertexBuffer_def
        setIndexBuffer_def onRenderPass_def element_def drawCall_def orElse_def quadDraw_def
        quadVertices_def quadIndices_def)
  then obtain s1 where s1: "draw quadDraw freshPass = Inr s1" and r1: "renderPassEncoder s1 = Some ?first"
    by (auto simp: callsOf_def passCalls_def split: sum.splits option.splits
        dest: onRenderPass_tables(6)[rotated -1] simp: draw_def)
  have d: "drawCall (quadDraw\<lparr> o_start := Some 3 \<rparr>) = DrawIndexed 6 1 3 0 0"
    by (simp add: drawCall_def quadDraw_def orElse_def)
  from redundant_bind_elision [OF s1, of "quadDraw\<lparr> o_start := Some 3 \<rparr>"]
  have "draw (quadDraw\<lparr> o_start := Some 3 \<rparr>) s1 =
      Inr (s1\<lparr> renderPassEncoder := Some (?first @ [DrawIndexed 6 1 3 0 0]) \<rparr>)"
    using r1 d by (simp add: quadDraw_def)
  then show ?thesis using c s1 by (simp add: andThen_def callsOf_def passCalls_def)
qed

text \<open>
  C5. Bind-group program-layout sensitivity does not hold at every index. Group 5 is
  bound at the indices 0 and 1 under \<open>prog1\<close>, of layout key 3, and then bound again
  at both under \<open>prog2\<close>, of layout key 4. The call for index 0 issues \<open>setBindGroup\<close>
  and writes 4 into the group's \<open>_lastLayout\<close>; the call for index 1 then finds the
  group in its table entry and the layout keys equal, and returns: index 1 keeps what
  was bound under layout key 3. The same happens when the group was bound at index 0
  under layout key 3 and at index 1 under layout key 4: binding it at index 0 under
  layout key 4 issues nothing. The third instance is the first through the loop over a
  shader's groups.
\<close>

theorem shared_group_rebind:
  "callsOf (andThen (andThen (andThen (setBindGroup 0 5 prog1 freshPass) (setBindGroup 1 5 prog1))
       (setBindGroup 0 5 prog2)) (setBindGroup 1 5 prog2))
     = Some [SetBindGroup 0 5 3, SetBindGroup 1 5 3, SetBindGroup 0 5 4] \<and>
   callsOf (andThen (andThen (setBindGroup 0 5 prog1 freshPass) (setBindGroup 1 5 prog2))
       (setBindGroup 0 5 prog2))
     = Some [SetBindGroup 0 5 3, SetBindGroup 1 5 4] \<and>
   callsOf (andThen (setShaderBindGroups [(0, 5), (1, 5)] prog1 False freshPass)
       (setShaderBindGroups [(0, 5), (1, 5)] prog2 False))
     = Some [SetBindGroup 0 5 3, SetBindGroup 1 5 3, SetBindGroup 0 5 4]"
  by (simp add: pass_eval prog2_def)

end
